theory Spec2Isabelle
  imports Main
begin

section \<open>Values, closures and the heap of lib/internal/task.js\<close>

text \<open>
  The module builds tasks out of closures. Each call of \<open>Task.start\<close> creates one
  closure environment (the variables \<open>finished\<close>, \<open>onFinish\<close>, \<open>abort\<close>), and each
  call of \<open>compose\<close> creates another one (the variables \<open>cancelled\<close>, \<open>currentTask\<close>,
  \<open>resolveCompositeTask\<close>, \<open>rejectCompositeTask\<close>, \<open>onResolve\<close>, \<open>onReject\<close>).
  The model keeps both kinds of environment in a store, addressed by the order of
  creation, and passes the store through every operation.

  Code of the caller is described by what it does to the module: a starter by the
  completion callbacks it calls before it returns and by what it returns or throws, a
  continuation factory by a function from its argument to what it throws or returns,
  an abort function and a cleanup function by the fact that they are called. A
  completion that arrives after \<open>Task.start\<close> has returned is a call of \<open>resolve\<close> or
  \<open>reject\<close> on the state, and a turn of the host's deferred queue is \<open>run_tick\<close>.
\<close>

datatype val = VUndefined | VNull | VBool bool | VNum int | VStr string | VError string

text \<open>\<open>firstErr == null\<close>: loose equality with null holds of null and undefined only.\<close>

definition loosely_null :: "val \<Rightarrow> bool" where
  "loosely_null v = (case v of VUndefined \<Rightarrow> True | VNull \<Rightarrow> True | _ \<Rightarrow> False)"

text \<open>The value a starter returns: a function of the caller, or \<open>cancelCompositeTask\<close>
  of the \<open>compose\<close> environment with the given address.\<close>

datatype abort = UserAbort | CancelCompositeTask nat

text \<open>
  A starter \<open>doSomething(resolve, reject)\<close> is described by what it does before it
  returns: the completion callbacks it calls, in order, and then either the value it
  returns (an abort function or nothing) or the value it throws.
\<close>

datatype call = CallResolve val | CallReject val

datatype ending = Return "abort option" | Throw val

record starter =
  calls :: "call list"
  ending :: ending

text \<open>What a continuation factory does with its argument: it throws, it returns
  null or undefined, or it returns a task (one it starts, or one that exists).\<close>

datatype texpr = Start starter | Existing nat

datatype fres = FThrow val | FNothing | FTask texpr

text \<open>The functions that reach \<open>onResolve\<close> and \<open>onReject\<close>: a function of the caller,
  or the \<open>resolve\<close> or \<open>reject\<close> callback of a task (line 212 passes those of the
  composite task).\<close>

datatype cont = UserFactory "val \<Rightarrow> fres" | ResolveTask nat | RejectTask nat

text \<open>The callbacks given to \<open>setListener\<close>: the one of \<open>compose\<close> (lines 181 to 217)
  and the one of \<open>finally\<close> (lines 134 to 136, with the label of its cleanup function).\<close>

datatype listener = ComposeListener nat | FinallyListener nat

text \<open>The functions handed to \<open>process.nextTick\<close>.\<close>

datatype deferred = ComposeTick nat val val | Cleanup nat

datatype side = OnResolve | OnReject

text \<open>
  Calls that leave or re-enter the module are recorded in a trace: a task's abort
  function, a task's listener, a continuation factory (of which \<open>compose\<close>
  environment, which one, and its argument) and a cleanup function.
\<close>

datatype event =
    AbortCalled nat
  | ListenerCalled nat val val
  | FactoryCalled nat side val
  | CleanupCalled nat

record task =
  finished :: "(val \<times> val) option"
  onFinish :: "listener option"
  abort :: "abort option"

record compose_env =
  cancelled :: bool
  currentTask :: "nat option"
  compositeTask :: nat
  onResolve :: "cont option"
  onReject :: "cont option"

record state =
  tasks :: "task list"
  envs :: "compose_env list"
  queue :: "deferred list"
  trace :: "event list"

definition empty_state :: state where
  "empty_state = \<lparr>tasks = [], envs = [], queue = [], trace = []\<rparr>"

definition nth_opt :: "'a list \<Rightarrow> nat \<Rightarrow> 'a option" where
  "nth_opt xs i = (if i < length xs then Some (xs ! i) else None)"

definition outcome :: "state \<Rightarrow> nat \<Rightarrow> (val \<times> val) option" where
  "outcome s t = (case nth_opt (tasks s) t of None \<Rightarrow> None | Some tk \<Rightarrow> finished tk)"

definition nextTick :: "state \<Rightarrow> deferred \<Rightarrow> state" where
  "nextTick s d = s\<lparr>queue := queue s @ [d]\<rparr>"

definition record_event :: "state \<Rightarrow> event \<Rightarrow> state" where
  "record_event s ev = s\<lparr>trace := trace s @ [ev]\<rparr>"

section \<open>Task.start\<close>

text \<open>
  \<open>callback(finished.err, finished.result)\<close> for the two callbacks of the module:
  the listener of \<open>compose\<close> clears \<open>currentTask\<close> and defers the rest; the listener of
  \<open>finally\<close> defers the cleanup.
\<close>

definition run_listener :: "state \<Rightarrow> nat \<Rightarrow> listener \<Rightarrow> val \<Rightarrow> val \<Rightarrow> state" where
  "run_listener s t l err result =
     (let s1 = record_event s (ListenerCalled t err result) in
      case l of
        ComposeListener e \<Rightarrow>
          nextTick
            (s1\<lparr>envs := (case nth_opt (envs s1) e of
                            None \<Rightarrow> envs s1
                          | Some env \<Rightarrow> (envs s1)[e := env\<lparr>currentTask := None\<rparr>])\<rparr>)
            (ComposeTick e err result)
      | FinallyListener c \<Rightarrow> nextTick s1 (Cleanup c))"

text \<open>\<open>finish\<close>, lines 59 to 64. An address that holds no task is left alone.\<close>

definition finish :: "state \<Rightarrow> nat \<Rightarrow> val \<Rightarrow> val \<Rightarrow> state" where
  "finish s t err result =
     (case nth_opt (tasks s) t of
        None \<Rightarrow> s
      | Some tk \<Rightarrow>
          if finished tk \<noteq> None then s
          else
            (let s1 = s\<lparr>tasks := (tasks s)[t := tk\<lparr>finished := Some (err, result)\<rparr>]\<rparr> in
             case onFinish tk of
               None \<Rightarrow> s1
             | Some l \<Rightarrow> run_listener s1 t l err result))"

text \<open>The two callbacks handed to the starter, lines 69 and 70.\<close>

definition resolve :: "state \<Rightarrow> nat \<Rightarrow> val \<Rightarrow> state" where
  "resolve s t result = finish s t VNull result"

definition reject :: "state \<Rightarrow> nat \<Rightarrow> val \<Rightarrow> state" where
  "reject s t err = finish s t err VNull"

definition do_call :: "nat \<Rightarrow> state \<Rightarrow> call \<Rightarrow> state" where
  "do_call t s c = (case c of CallResolve v \<Rightarrow> resolve s t v | CallReject e \<Rightarrow> reject s t e)"

definition new_task :: task where
  "new_task = \<lparr>finished = None, onFinish = None, abort = None\<rparr>"

text \<open>\<open>Task.start\<close>, lines 50 to 73: the starter runs at once, inside try and catch.\<close>

definition Task_start :: "state \<Rightarrow> starter \<Rightarrow> state \<times> nat" where
  "Task_start s doSomething =
     (let me = length (tasks s);
          s0 = s\<lparr>tasks := tasks s @ [new_task]\<rparr>;
          s1 = foldl (do_call me) s0 (calls doSomething)
      in case ending doSomething of
           Return a \<Rightarrow>
             (s1\<lparr>tasks := (case nth_opt (tasks s1) me of
                              None \<Rightarrow> tasks s1
                            | Some tk \<Rightarrow> (tasks s1)[me := tk\<lparr>abort := a\<rparr>])\<rparr>, me)
         | Throw err \<Rightarrow> (finish s1 me err VNull, me))"

text \<open>\<open>Task.withValue\<close>, lines 146 to 150.\<close>

definition Task_withValue :: "state \<Rightarrow> val \<Rightarrow> state \<times> nat" where
  "Task_withValue s result =
     Task_start s \<lparr>calls = [CallResolve result], ending = Return None\<rparr>"

text \<open>\<open>setListener\<close>, lines 95 to 103; \<open>Inl\<close> is the thrown value, and the state is
  then the one before the call. An address that holds no task is left alone.\<close>

definition setListener :: "state \<Rightarrow> nat \<Rightarrow> listener \<Rightarrow> val + state" where
  "setListener s t callback =
     (case nth_opt (tasks s) t of
        None \<Rightarrow> Inr s
      | Some tk \<Rightarrow>
          if onFinish tk \<noteq> None then Inl (VError ''thenDo/finally called more than once'')
          else
            (let s1 = s\<lparr>tasks := (tasks s)[t := tk\<lparr>onFinish := Some callback\<rparr>]\<rparr> in
             case finished tk of
               None \<Rightarrow> Inr s1
             | Some (err, result) \<Rightarrow> Inr (run_listener s1 t callback err result)))"

section \<open>thenDo, finally and compose\<close>

text \<open>
  \<open>compose\<close>, lines 166 to 220. The new environment and the composite task are created
  first; \<open>setFirstTaskListener\<close> follows, and what it throws leaves \<open>compose\<close> with the
  composite task already created. The callback it registers is \<open>ComposeListener\<close>,
  whose deferred part is \<open>compose_tick\<close> below.
\<close>

definition compose :: "state \<Rightarrow> nat \<Rightarrow> cont option \<Rightarrow> cont option \<Rightarrow> state \<times> (val + nat)" where
  "compose s firstTask onRes onRej =
     (let e = length (envs s);
          s0 = s\<lparr>envs := envs s @
                 [\<lparr>cancelled = False, currentTask = Some firstTask,
                   compositeTask = length (tasks s), onResolve = onRes, onReject = onRej\<rparr>]\<rparr>;
          (s1, c) = Task_start s0 \<lparr>calls = [], ending = Return (Some (CancelCompositeTask e))\<rparr>
      in case setListener s1 firstTask (ComposeListener e) of
           Inl err \<Rightarrow> (s1, Inl err)
         | Inr s2 \<Rightarrow> (s2, Inr c))"

definition thenDo :: "state \<Rightarrow> nat \<Rightarrow> cont option \<Rightarrow> cont option \<Rightarrow> state \<times> (val + nat)" where
  "thenDo s me onRes onRej = compose s me onRes onRej"

text \<open>\<open>me.finally\<close>, lines 133 to 138; the cleanup function is known by a label.\<close>

definition finally_do :: "state \<Rightarrow> nat \<Rightarrow> nat \<Rightarrow> state \<times> (val + nat)" where
  "finally_do s me cleanup =
     (case setListener s me (FinallyListener cleanup) of
        Inl err \<Rightarrow> (s, Inl err)
      | Inr s1 \<Rightarrow> (s1, Inr me))"

text \<open>The call \<open>onResolve(firstResult)\<close> or \<open>onReject(firstErr)\<close>: the state after it
  and, on the right, the task it returned, if any; on the left the value it threw.\<close>

definition eval_texpr :: "state \<Rightarrow> texpr \<Rightarrow> state \<times> nat" where
  "eval_texpr s te = (case te of Start st \<Rightarrow> Task_start s st | Existing t \<Rightarrow> (s, t))"

definition call_cont :: "state \<Rightarrow> cont \<Rightarrow> val \<Rightarrow> state \<times> (val + nat option)" where
  "call_cont s k v =
     (case k of
        UserFactory f \<Rightarrow>
          (case f v of
             FThrow err \<Rightarrow> (s, Inl err)
           | FNothing \<Rightarrow> (s, Inr None)
           | FTask te \<Rightarrow> (let (s1, t) = eval_texpr s te in (s1, Inr (Some t))))
      | ResolveTask c \<Rightarrow> (resolve s c v, Inr None)
      | RejectTask c \<Rightarrow> (reject s c v, Inr None))"

definition set_current :: "state \<Rightarrow> nat \<Rightarrow> nat option \<Rightarrow> state" where
  "set_current s e ct =
     s\<lparr>envs := (case nth_opt (envs s) e of
                  None \<Rightarrow> envs s
                | Some env \<Rightarrow> (envs s)[e := env\<lparr>currentTask := ct\<rparr>])\<rparr>"

text \<open>Lines 211 to 215, reached when the factory returned.\<close>

definition attach :: "state \<Rightarrow> nat \<Rightarrow> nat \<Rightarrow> nat option \<Rightarrow> state \<times> (val + unit)" where
  "attach s e c r =
     (let s1 = set_current s e r in
      case r of
        Some ct \<Rightarrow>
          (case thenDo s1 ct (Some (ResolveTask c)) (Some (RejectTask c)) of
             (s2, Inl err) \<Rightarrow> (s2, Inl err)
           | (s2, Inr _) \<Rightarrow> (s2, Inr ()))
      | None \<Rightarrow> (resolve s1 c VUndefined, Inr ()))"

text \<open>
  The function given to \<open>process.nextTick\<close> at line 184, for the environment \<open>e\<close> of a
  \<open>compose\<close> call. \<open>Inl\<close> is a value that leaves the function uncaught: only the
  \<open>thenDo\<close> of line 212 is outside the try block.
\<close>

definition compose_tick :: "state \<Rightarrow> nat \<Rightarrow> val \<Rightarrow> val \<Rightarrow> state \<times> (val + unit)" where
  "compose_tick s e firstErr firstResult =
     (case nth_opt (envs s) e of
        None \<Rightarrow> (s, Inr ())
      | Some env \<Rightarrow>
          (let c = compositeTask env in
           if cancelled env \<or> firstErr = VStr ''cancelled'' then
             (reject s c (VStr ''cancelled''), Inr ())
           else if loosely_null firstErr then
             (case onResolve env of
                Some k \<Rightarrow>
                  (case call_cont (record_event s (FactoryCalled e OnResolve firstResult))
                          k firstResult of
                     (s1, Inl err) \<Rightarrow> (reject s1 c err, Inr ())
                   | (s1, Inr r) \<Rightarrow> attach s1 e c r)
              | None \<Rightarrow> (resolve s c firstResult, Inr ()))
           else
             (case onReject env of
                Some k \<Rightarrow>
                  (case call_cont (record_event s (FactoryCalled e OnReject firstErr))
                          k firstErr of
                     (s1, Inl err) \<Rightarrow> (reject s1 c err, Inr ())
                   | (s1, Inr r) \<Rightarrow> attach s1 e c r)
              | None \<Rightarrow> (reject s c firstErr, Inr ()))))"

section \<open>The deferred queue\<close>

text \<open>One turn of the host's queue: the oldest deferred function runs.\<close>

definition run_tick :: "state \<Rightarrow> state \<times> (val + unit)" where
  "run_tick s =
     (case queue s of
        [] \<Rightarrow> (s, Inr ())
      | d # q \<Rightarrow>
          (let s0 = s\<lparr>queue := q\<rparr> in
           case d of
             ComposeTick e firstErr firstResult \<Rightarrow> compose_tick s0 e firstErr firstResult
           | Cleanup c \<Rightarrow> (record_event s0 (CleanupCalled c), Inr ())))"

section \<open>cancel\<close>

definition running :: "task \<Rightarrow> bool" where
  "running tk = (finished tk = None)"

definition count_running :: "state \<Rightarrow> nat" where
  "count_running s = length (filter running (tasks s))"

text \<open>\<open>cancelled = true\<close> and the reading of \<open>currentTask\<close>, lines 174 and 175.\<close>

definition mark_cancelled :: "state \<Rightarrow> nat \<Rightarrow> state" where
  "mark_cancelled s e =
     s\<lparr>envs := (case nth_opt (envs s) e of
                  None \<Rightarrow> envs s
                | Some env \<Rightarrow> (envs s)[e := env\<lparr>cancelled := True\<rparr>])\<rparr>"

definition current_of :: "state \<Rightarrow> nat \<Rightarrow> nat option" where
  "current_of s e = (case nth_opt (envs s) e of None \<Rightarrow> None | Some env \<Rightarrow> currentTask env)"

text \<open>
  \<open>me.cancel\<close>, lines 82 to 87. When the abort function is \<open>cancelCompositeTask\<close>
  (lines 173 to 178) the call goes on to \<open>currentTask.cancel()\<close>; every such call
  finishes one more running task, which bounds the chain.
\<close>

function cancel :: "state \<Rightarrow> nat \<Rightarrow> state" where
  "cancel s t =
     (case nth_opt (tasks s) t of
        None \<Rightarrow> s
      | Some tk \<Rightarrow>
          if finished tk \<noteq> None then s
          else
            (let s1 = finish s t (VStr ''cancelled'') VNull in
             case abort tk of
               None \<Rightarrow> s1
             | Some a \<Rightarrow>
                 (let s2 = record_event s1 (AbortCalled t) in
                  case a of
                    UserAbort \<Rightarrow> s2
                  | CancelCompositeTask e \<Rightarrow>
                      (let s3 = mark_cancelled s2 e in
                       case current_of s3 e of
                         None \<Rightarrow> s3
                       | Some ct \<Rightarrow> cancel s3 ct))))"
  by pat_completeness auto
termination
proof (relation "measure (\<lambda>(s, t). count_running s)")
  show "wf (measure (\<lambda>(s, t). count_running s))"
    by simp
next
  fix s :: state and t tk s1 a s2 e s3 ct
  assume tk: "nth_opt (tasks s) t = Some tk" and fin: "\<not> finished tk \<noteq> None"
    and s1: "s1 = finish s t (VStr ''cancelled'') VNull"
    and s2: "s2 = record_event s1 (AbortCalled t)"
    and s3: "s3 = mark_cancelled s2 e"
  have fewer: "length (filter running (xs[i := y])) < length (filter running xs)"
    if "i < length xs" "running (xs ! i)" "\<not> running y" for xs i y
    using that
  proof (induction xs arbitrary: i)
    case Nil
    then show ?case by simp
  next
    case (Cons x xs)
    show ?case
    proof (cases i)
      case 0
      with Cons.prems show ?thesis by (simp add: less_Suc_eq_le)
    next
      case (Suc j)
      with Cons.prems Cons.IH [of j] show ?thesis by simp
    qed
  qed
  from fin have none: "finished tk = None"
    by (cases "finished tk") simp_all
  from tk have t: "t < length (tasks s)" and at: "tasks s ! t = tk"
    by (auto simp: nth_opt_def split: if_splits)
  have "tasks s3 = tasks s1"
    by (simp add: s2 s3 record_event_def mark_cancelled_def)
  also have "tasks s1 = (tasks s)[t := tk\<lparr>finished := Some (VStr ''cancelled'', VNull)\<rparr>]"
    using tk none
    by (simp add: s1 finish_def run_listener_def nextTick_def record_event_def Let_def
        split: option.splits listener.splits)
  finally have "count_running s3 < count_running s"
    using t at none by (simp add: count_running_def running_def fewer)
  then show "((s3, ct), s, t) \<in> measure (\<lambda>(s, t). count_running s)"
    by simp
qed

declare cancel.simps [simp del]

section \<open>Observations used in the statements\<close>

text \<open>The arguments that the callbacks of lines 69 and 70 give to \<open>finish\<close>.\<close>

definition completion_pair :: "call \<Rightarrow> val \<times> val" where
  "completion_pair c = (case c of CallResolve v \<Rightarrow> (VNull, v) | CallReject e \<Rightarrow> (e, VNull))"

text \<open>The calls of continuation factories in the trace.\<close>

definition is_factory_call :: "event \<Rightarrow> bool" where
  "is_factory_call ev = (case ev of FactoryCalled e sd v \<Rightarrow> True | _ \<Rightarrow> False)"

definition factory_calls :: "state \<Rightarrow> event list" where
  "factory_calls s = filter is_factory_call (trace s)"

text \<open>What a starter has made of its task when \<open>Task.start\<close> returns: the outcome, if the
  starter completed the task or threw, and the abort function it returned.\<close>

definition sync_outcome :: "starter \<Rightarrow> (val \<times> val) option" where
  "sync_outcome st =
     (case calls st of
        c # cs \<Rightarrow> Some (completion_pair c)
      | [] \<Rightarrow> (case ending st of Throw err \<Rightarrow> Some (err, VNull) | Return a \<Rightarrow> None))"

definition returned_abort :: "starter \<Rightarrow> abort option" where
  "returned_abort st = (case ending st of Return a \<Rightarrow> a | Throw err \<Rightarrow> None)"

text \<open>The environment and the composite task that \<open>compose\<close> creates in a state.\<close>

definition fresh_env :: "state \<Rightarrow> nat \<Rightarrow> cont option \<Rightarrow> cont option \<Rightarrow> compose_env" where
  "fresh_env s firstTask F G =
     \<lparr>cancelled = False, currentTask = Some firstTask, compositeTask = length (tasks s),
      onResolve = F, onReject = G\<rparr>"

definition fresh_composite :: "state \<Rightarrow> task" where
  "fresh_composite s =
     \<lparr>finished = None, onFinish = None, abort = Some (CancelCompositeTask (length (envs s)))\<rparr>"

text \<open>A state with one task, started by a starter that returns an abort function and
  completes later.\<close>

definition pending_task :: state where
  "pending_task = fst (Task_start empty_state \<lparr>calls = [], ending = Return (Some UserAbort)\<rparr>)"

text \<open>Continuation factories used as examples: one that returns nothing, one that throws
  "boom", one that returns \<open>Task.withValue(v + 1)\<close>, and one that returns a task which
  has an abort function and completes later.\<close>

definition returns_nothing :: "val \<Rightarrow> fres" where
  "returns_nothing v = FNothing"

definition throws_boom :: "val \<Rightarrow> fres" where
  "throws_boom v = FThrow (VStr ''boom'')"

text \<open>A factory that throws a description of the argument it was called with.\<close>

definition reports_argument :: "val \<Rightarrow> fres" where
  "reports_argument v =
     FThrow (VStr (case v of
        VNull \<Rightarrow> ''onResolve got null''
      | VUndefined \<Rightarrow> ''onResolve got undefined''
      | _ \<Rightarrow> ''onResolve got another value''))"

definition plus_one :: "val \<Rightarrow> fres" where
  "plus_one v =
     (case v of
        VNum n \<Rightarrow> FTask (Start \<lparr>calls = [CallResolve (VNum (n + 1))], ending = Return None\<rparr>)
      | _ \<Rightarrow> FNothing)"

definition slow_task :: "val \<Rightarrow> fres" where
  "slow_task v = FTask (Start \<lparr>calls = [], ending = Return (Some UserAbort)\<rparr>)"

text \<open>The state after \<open>thenDo\<close> on that task, with a factory that returns nothing.\<close>

definition listened_task :: state where
  "listened_task = fst (thenDo pending_task 0 (Some (UserFactory returns_nothing)) None)"

text \<open>\<open>Task.withValue(5).thenDo(v => Task.withValue(v + 1))\<close>: the state when \<open>thenDo\<close> has
  returned, and the state after the first turn of the queue. Task 0 is the first task,
  task 1 the composite task, task 2 the task that the factory returns.\<close>

definition chain_started :: state where
  "chain_started =
     fst (thenDo (fst (Task_withValue empty_state (VNum 5))) 0 (Some (UserFactory plus_one)) None)"

definition chain_turn1 :: state where
  "chain_turn1 = fst (run_tick chain_started)"

text \<open>A running task with \<open>thenDo(f)\<close>, where \<open>f\<close> returns a task that completes later; the
  first task has been resolved with 5 and the deferred function is about to run.\<close>

definition slow_chain :: state where
  "slow_chain =
     (resolve (fst (thenDo pending_task 0 (Some (UserFactory slow_task)) None)) 0 (VNum 5))
       \<lparr>queue := []\<rparr>"

text \<open>A factory whose task is rejected with the sentinel by its own starter.\<close>

definition rejects_cancelled :: "val \<Rightarrow> fres" where
  "rejects_cancelled v =
     FTask (Start \<lparr>calls = [CallReject (VStr ''cancelled'')], ending = Return None\<rparr>)"

text \<open>A state with one task, started by a starter that returns nothing and completes
  later.\<close>

definition bare_task :: state where
  "bare_task = fst (Task_start empty_state \<lparr>calls = [], ending = Return None\<rparr>)"

text \<open>A state with one task, rejected with "E" by its starter.\<close>

definition failed_task :: state where
  "failed_task =
     fst (Task_start empty_state \<lparr>calls = [CallReject (VStr ''E'')], ending = Return None\<rparr>)"

section \<open>Facts about the operations\<close>


section \<open>Addresses\<close>

lemma nth_opt_Some_iff: "nth_opt xs i = Some x \<longleftrightarrow> i < length xs \<and> xs ! i = x"
  by (auto simp: nth_opt_def)

lemma nth_opt_lt: "nth_opt xs i = Some x \<Longrightarrow> i < length xs"
  by (simp add: nth_opt_Some_iff)

lemma nth_opt_update:
  "nth_opt (xs[i := x]) j = (if j = i \<and> i < length xs then Some x else nth_opt xs j)"
  by (auto simp: nth_opt_def)

lemma nth_opt_append:
  "nth_opt (xs @ ys) i = (if i < length xs then nth_opt xs i else nth_opt ys (i - length xs))"
  by (auto simp: nth_opt_def nth_append)

lemma nth_opt_Cons: "nth_opt (x # xs) i = (case i of 0 \<Rightarrow> Some x | Suc j \<Rightarrow> nth_opt xs j)"
  by (auto simp: nth_opt_def split: nat.splits)

lemma nth_opt_Nil [simp]: "nth_opt [] i = None"
  by (simp add: nth_opt_def)

lemma nth_opt_length [simp]: "nth_opt xs (length xs) = None"
  by (simp add: nth_opt_def)

section \<open>finish\<close>

lemma finish_running:
  assumes "nth_opt (tasks s) t = Some tk" and "finished tk = None"
  shows "finish s t err result =
    (case onFinish tk of
       None \<Rightarrow> s\<lparr>tasks := (tasks s)[t := tk\<lparr>finished := Some (err, result)\<rparr>]\<rparr>
     | Some l \<Rightarrow>
         run_listener (s\<lparr>tasks := (tasks s)[t := tk\<lparr>finished := Some (err, result)\<rparr>]\<rparr>)
           t l err result)"
  using assms by (simp add: finish_def Let_def)

lemma finish_noop: "outcome s t \<noteq> None \<Longrightarrow> finish s t err result = s"
  by (auto simp: finish_def outcome_def split: option.splits)

lemma tasks_run_listener [simp]: "tasks (run_listener s t l err result) = tasks s"
  by (simp add: run_listener_def nextTick_def record_event_def Let_def split: listener.splits)

lemma tasks_finish:
  "tasks (finish s t err result) =
     (case nth_opt (tasks s) t of
        None \<Rightarrow> tasks s
      | Some tk \<Rightarrow> if finished tk \<noteq> None then tasks s
                   else (tasks s)[t := tk\<lparr>finished := Some (err, result)\<rparr>])"
  by (simp add: finish_def Let_def split: option.splits)

lemma length_tasks_finish [simp]: "length (tasks (finish s t err result)) = length (tasks s)"
  by (simp add: tasks_finish split: option.splits)

lemma outcome_finish_running:
  assumes "nth_opt (tasks s) t = Some tk" and "finished tk = None"
  shows "outcome (finish s t err result) t = Some (err, result)"
proof -
  from assms(1) have "t < length (tasks s)"
    by (rule nth_opt_lt)
  then show ?thesis
    using assms by (simp add: outcome_def tasks_finish nth_opt_update)
qed

lemma outcome_finish_other: "u \<noteq> t \<Longrightarrow> outcome (finish s t err result) u = outcome s u"
  by (simp add: outcome_def tasks_finish nth_opt_update split: option.splits)

lemma outcome_finish_mono:
  assumes "outcome s u = Some p"
  shows "outcome (finish s t err result) u = Some p"
proof (cases "u = t")
  case True
  with assms show ?thesis by (simp add: finish_noop)
next
  case False
  with assms show ?thesis by (simp add: outcome_finish_other)
qed

lemma factory_calls_record_other:
  "\<not> is_factory_call ev \<Longrightarrow> factory_calls (record_event s ev) = factory_calls s"
  by (simp add: factory_calls_def record_event_def)

lemma factory_calls_run_listener [simp]:
  "factory_calls (run_listener s t l err result) = factory_calls s"
  by (simp add: factory_calls_def run_listener_def nextTick_def record_event_def Let_def
      is_factory_call_def split: listener.splits)

lemma factory_calls_finish [simp]: "factory_calls (finish s t err result) = factory_calls s"
proof -
  have "factory_calls (s\<lparr>tasks := ts\<rparr>) = factory_calls s" for ts
    by (simp add: factory_calls_def)
  then show ?thesis
    by (simp add: finish_def Let_def split: option.splits)
qed

section \<open>Completion calls\<close>

lemma do_call_finish:
  "do_call t s c = finish s t (fst (completion_pair c)) (snd (completion_pair c))"
  by (simp add: do_call_def completion_pair_def resolve_def reject_def split: call.splits)

lemma do_call_noop: "outcome s t \<noteq> None \<Longrightarrow> do_call t s c = s"
  by (simp add: do_call_finish finish_noop)

lemma foldl_do_call_noop: "outcome s t \<noteq> None \<Longrightarrow> foldl (do_call t) s cs = s"
  by (induction cs) (simp_all add: do_call_noop)

lemma outcome_do_call_running:
  assumes "nth_opt (tasks s) t = Some tk" and "finished tk = None"
  shows "outcome (do_call t s c) t = Some (completion_pair c)"
  using outcome_finish_running [OF assms] by (simp add: do_call_finish)

lemma factory_calls_do_call [simp]: "factory_calls (do_call t s c) = factory_calls s"
  by (simp add: do_call_finish)

lemma factory_calls_foldl_do_call [simp]:
  "factory_calls (foldl (do_call t) s cs) = factory_calls s"
  by (induction cs arbitrary: s) simp_all




section \<open>Task.start\<close>

lemma foldl_do_call_fresh:
  "foldl (do_call (length ts)) (s\<lparr>tasks := ts @ [new_task]\<rparr>) cs =
     s\<lparr>tasks := ts @ [new_task\<lparr>finished := (case cs of [] \<Rightarrow> None | c # cs' \<Rightarrow> Some (completion_pair c))\<rparr>]\<rparr>"
proof (cases cs)
  case Nil
  then show ?thesis by (simp add: new_task_def)
next
  case (Cons c cs')
  let ?s0 = "s\<lparr>tasks := ts @ [new_task]\<rparr>"
  have at: "nth_opt (tasks ?s0) (length ts) = Some new_task"
    by (simp add: nth_opt_append nth_opt_Cons)
  have fin: "finished new_task = None" and lis: "onFinish new_task = None"
    by (simp_all add: new_task_def)
  have one: "do_call (length ts) ?s0 c =
      s\<lparr>tasks := ts @ [new_task\<lparr>finished := Some (completion_pair c)\<rparr>]\<rparr>"
    by (simp add: do_call_finish finish_running [OF at fin] lis)
  have "outcome (do_call (length ts) ?s0 c) (length ts) \<noteq> None"
    by (simp add: outcome_do_call_running [OF at fin])
  then have "foldl (do_call (length ts)) (do_call (length ts) ?s0 c) cs' = do_call (length ts) ?s0 c"
    by (rule foldl_do_call_noop)
  with one Cons show ?thesis by simp
qed

lemma Task_start_closed:
  "Task_start s st =
     (\<lparr>tasks = tasks s @
          [\<lparr>finished = sync_outcome st, onFinish = None, abort = returned_abort st\<rparr>],
       envs = envs s, queue = queue s, trace = trace s\<rparr>,
      length (tasks s))"
proof (cases "ending st")
  case (Return a)
  have "Task_start s st =
      (let s1 = s\<lparr>tasks := tasks s @ [new_task\<lparr>finished :=
                  (case calls st of [] \<Rightarrow> None | c # cs' \<Rightarrow> Some (completion_pair c))\<rparr>]\<rparr>
       in (s1\<lparr>tasks := (case nth_opt (tasks s1) (length (tasks s)) of
                              None \<Rightarrow> tasks s1
                            | Some tk \<Rightarrow> (tasks s1)[length (tasks s) := tk\<lparr>abort := a\<rparr>])\<rparr>,
           length (tasks s)))"
    using Return by (simp only: Task_start_def Let_def foldl_do_call_fresh ending.case)
  then show ?thesis
    using Return
    by (simp add: Let_def nth_opt_append nth_opt_Cons
        sync_outcome_def returned_abort_def new_task_def split: list.splits)
next
  case (Throw err)
  show ?thesis
  proof (cases "calls st")
    case Nil
    let ?s0 = "s\<lparr>tasks := tasks s @ [new_task]\<rparr>"
    have at: "nth_opt (tasks ?s0) (length (tasks s)) = Some new_task"
      by (simp add: nth_opt_append nth_opt_Cons)
    have fin: "finished new_task = None" and lis: "onFinish new_task = None"
      by (simp_all add: new_task_def)
    have "finish ?s0 (length (tasks s)) err VNull =
        s\<lparr>tasks := tasks s @ [new_task\<lparr>finished := Some (err, VNull)\<rparr>]\<rparr>"
      by (simp add: finish_running [OF at fin] lis)
    then show ?thesis
      using Throw Nil
      by (simp add: Task_start_def Let_def sync_outcome_def returned_abort_def new_task_def)
  next
    case (Cons c cs)
    let ?s1 = "s\<lparr>tasks := tasks s @ [new_task\<lparr>finished := Some (completion_pair c)\<rparr>]\<rparr>"
    have "outcome ?s1 (length (tasks s)) \<noteq> None"
      by (simp add: outcome_def nth_opt_append nth_opt_Cons)
    then have "finish ?s1 (length (tasks s)) err VNull = ?s1"
      by (rule finish_noop)
    moreover have "foldl (do_call (length (tasks s))) (s\<lparr>tasks := tasks s @ [new_task]\<rparr>) (calls st)
        = ?s1"
      using Cons by (simp only: foldl_do_call_fresh list.case)
    ultimately show ?thesis
      using Throw Cons
      by (simp add: Task_start_def Let_def sync_outcome_def returned_abort_def new_task_def)
  qed
qed

lemma Task_withValue_closed:
  "Task_withValue s v =
     (\<lparr>tasks = tasks s @ [\<lparr>finished = Some (VNull, v), onFinish = None, abort = None\<rparr>],
       envs = envs s, queue = queue s, trace = trace s\<rparr>,
      length (tasks s))"
  by (simp add: Task_withValue_def Task_start_closed sync_outcome_def returned_abort_def
      completion_pair_def)

section \<open>setListener, thenDo and finally\<close>

lemma setListener_second:
  assumes "nth_opt (tasks s) t = Some tk" and "onFinish tk = Some l"
  shows "setListener s t l' = Inl (VError ''thenDo/finally called more than once'')"
  using assms by (simp add: setListener_def)

lemma setListener_first:
  assumes "nth_opt (tasks s) t = Some tk" and "onFinish tk = None"
  shows "setListener s t l =
     Inr (case finished tk of
            None \<Rightarrow> s\<lparr>tasks := (tasks s)[t := tk\<lparr>onFinish := Some l\<rparr>]\<rparr>
          | Some (err, result) \<Rightarrow>
              run_listener (s\<lparr>tasks := (tasks s)[t := tk\<lparr>onFinish := Some l\<rparr>]\<rparr>) t l err result)"
  using assms by (simp add: setListener_def Let_def split: option.splits)

lemma thenDo_unfold:
  "thenDo s t F G =
     (let s1 = \<lparr>tasks = tasks s @ [fresh_composite s], envs = envs s @ [fresh_env s t F G],
                queue = queue s, trace = trace s\<rparr>
      in case setListener s1 t (ComposeListener (length (envs s))) of
           Inl err \<Rightarrow> (s1, Inl err)
         | Inr s2 \<Rightarrow> (s2, Inr (length (tasks s))))"
  by (simp add: thenDo_def compose_def Let_def Task_start_closed sync_outcome_def
      returned_abort_def fresh_composite_def fresh_env_def cong: sum.case_cong)

lemma thenDo_second:
  assumes "nth_opt (tasks s) t = Some tk" and "onFinish tk = Some l"
  shows "thenDo s t F G =
     (\<lparr>tasks = tasks s @ [fresh_composite s], envs = envs s @ [fresh_env s t F G],
       queue = queue s, trace = trace s\<rparr>,
      Inl (VError ''thenDo/finally called more than once''))"
proof -
  let ?s1 = "\<lparr>tasks = tasks s @ [fresh_composite s], envs = envs s @ [fresh_env s t F G],
       queue = queue s, trace = trace s\<rparr>"
  from assms(1) have "nth_opt (tasks ?s1) t = Some tk"
    by (simp add: nth_opt_append nth_opt_lt)
  from setListener_second [OF this assms(2)] show ?thesis
    by (simp add: thenDo_unfold Let_def)
qed

lemma thenDo_first_running:
  assumes "nth_opt (tasks s) t = Some tk" and "onFinish tk = None" and "finished tk = None"
  shows "thenDo s t F G =
     (\<lparr>tasks = (tasks s)[t := tk\<lparr>onFinish := Some (ComposeListener (length (envs s)))\<rparr>]
                   @ [fresh_composite s],
       envs = envs s @ [fresh_env s t F G], queue = queue s, trace = trace s\<rparr>,
      Inr (length (tasks s)))"
proof -
  let ?s1 = "\<lparr>tasks = tasks s @ [fresh_composite s], envs = envs s @ [fresh_env s t F G],
       queue = queue s, trace = trace s\<rparr>"
  from assms(1) have lt: "t < length (tasks s)"
    by (rule nth_opt_lt)
  with assms(1) have "nth_opt (tasks ?s1) t = Some tk"
    by (simp add: nth_opt_append)
  from setListener_first [OF this assms(2)] show ?thesis
    using assms(3) lt
    by (simp add: thenDo_unfold Let_def list_update_append1)
qed

lemma thenDo_first_finished:
  assumes "nth_opt (tasks s) t = Some tk" and "onFinish tk = None"
    and "finished tk = Some (err, result)"
  shows "thenDo s t F G =
     (\<lparr>tasks = (tasks s)[t := tk\<lparr>onFinish := Some (ComposeListener (length (envs s)))\<rparr>]
                   @ [fresh_composite s],
       envs = envs s @ [(fresh_env s t F G)\<lparr>currentTask := None\<rparr>],
       queue = queue s @ [ComposeTick (length (envs s)) err result],
       trace = trace s @ [ListenerCalled t err result]\<rparr>,
      Inr (length (tasks s)))"
proof -
  let ?s1 = "\<lparr>tasks = tasks s @ [fresh_composite s], envs = envs s @ [fresh_env s t F G],
       queue = queue s, trace = trace s\<rparr>"
  from assms(1) have lt: "t < length (tasks s)"
    by (rule nth_opt_lt)
  with assms(1) have "nth_opt (tasks ?s1) t = Some tk"
    by (simp add: nth_opt_append)
  from setListener_first [OF this assms(2)] show ?thesis
    using assms(3) lt
    by (simp add: thenDo_unfold Let_def list_update_append1
        run_listener_def record_event_def nextTick_def nth_opt_append nth_opt_Cons)
qed




section \<open>cancel\<close>

lemma outcome_record_event [simp]: "outcome (record_event s ev) t = outcome s t"
  by (simp add: outcome_def record_event_def)

lemma outcome_mark_cancelled [simp]: "outcome (mark_cancelled s e) t = outcome s t"
  by (simp add: outcome_def mark_cancelled_def)

lemma trace_mark_cancelled [simp]: "trace (mark_cancelled s e) = trace s"
  by (simp add: mark_cancelled_def)

lemma trace_record_event [simp]: "trace (record_event s ev) = trace s @ [ev]"
  by (simp add: record_event_def)

lemma factory_calls_mark_cancelled [simp]: "factory_calls (mark_cancelled s e) = factory_calls s"
  by (simp add: factory_calls_def)

lemma cancel_noop: "outcome s t \<noteq> None \<Longrightarrow> cancel s t = s"
  by (subst cancel.simps) (auto simp: outcome_def split: option.splits)

lemma cancel_no_task: "nth_opt (tasks s) t = None \<Longrightarrow> cancel s t = s"
  by (subst cancel.simps) simp

lemma cancel_running:
  assumes "nth_opt (tasks s) t = Some tk" and "finished tk = None"
  shows "cancel s t =
     (case abort tk of
        None \<Rightarrow> finish s t (VStr ''cancelled'') VNull
      | Some UserAbort \<Rightarrow> record_event (finish s t (VStr ''cancelled'') VNull) (AbortCalled t)
      | Some (CancelCompositeTask e) \<Rightarrow>
          (let s3 = mark_cancelled
                      (record_event (finish s t (VStr ''cancelled'') VNull) (AbortCalled t)) e
           in case current_of s3 e of None \<Rightarrow> s3 | Some ct \<Rightarrow> cancel s3 ct))"
  using assms by (subst cancel.simps) (simp add: Let_def split: option.splits abort.splits)

text \<open>The cases of a call of \<open>cancel\<close>, for a property of the state before, the task and
  the state after.\<close>

lemma cancel_cases [case_names ignored plain user stop forward]:
  assumes ignored: "\<And>s t. outcome s t \<noteq> None \<or> nth_opt (tasks s) t = None \<Longrightarrow> Q s t s"
    and plain: "\<And>s t tk. \<lbrakk>nth_opt (tasks s) t = Some tk; finished tk = None; abort tk = None\<rbrakk>
        \<Longrightarrow> Q s t (finish s t (VStr ''cancelled'') VNull)"
    and user: "\<And>s t tk. \<lbrakk>nth_opt (tasks s) t = Some tk; finished tk = None;
        abort tk = Some UserAbort\<rbrakk>
        \<Longrightarrow> Q s t (record_event (finish s t (VStr ''cancelled'') VNull) (AbortCalled t))"
    and stop: "\<And>s t tk e s3. \<lbrakk>nth_opt (tasks s) t = Some tk; finished tk = None;
        abort tk = Some (CancelCompositeTask e);
        s3 = mark_cancelled (record_event (finish s t (VStr ''cancelled'') VNull) (AbortCalled t)) e;
        current_of s3 e = None\<rbrakk> \<Longrightarrow> Q s t s3"
    and forward: "\<And>s t tk e s3 ct. \<lbrakk>nth_opt (tasks s) t = Some tk; finished tk = None;
        abort tk = Some (CancelCompositeTask e);
        s3 = mark_cancelled (record_event (finish s t (VStr ''cancelled'') VNull) (AbortCalled t)) e;
        current_of s3 e = Some ct; Q s3 ct (cancel s3 ct)\<rbrakk> \<Longrightarrow> Q s t (cancel s3 ct)"
  shows "Q s t (cancel s t)"
proof (induction s t rule: cancel.induct)
  case (1 s t)
  show ?case
  proof (cases "nth_opt (tasks s) t")
    case None
    then show ?thesis
      using ignored [of s t] by (simp add: cancel_no_task)
  next
    case (Some tk)
    note tk = this
    show ?thesis
    proof (cases "finished tk")
      case (Some q)
      with tk have "outcome s t \<noteq> None"
        by (simp add: outcome_def)
      then show ?thesis
        using ignored [of s t] by (simp add: cancel_noop)
    next
      case None
      note run = cancel_running [OF tk None]
      show ?thesis
      proof (cases "abort tk")
        case None
        with plain [OF tk \<open>finished tk = None\<close>] show ?thesis
          by (simp add: run)
      next
        case (Some a)
        note ab = this
        show ?thesis
        proof (cases a)
          case UserAbort
          with ab user [OF tk None] show ?thesis
            by (simp add: run)
        next
          case (CancelCompositeTask e)
          define s3 where "s3 = mark_cancelled
              (record_event (finish s t (VStr ''cancelled'') VNull) (AbortCalled t)) e"
          from ab CancelCompositeTask have ab': "abort tk = Some (CancelCompositeTask e)"
            by simp
          show ?thesis
          proof (cases "current_of s3 e")
            case None
            from stop [OF tk \<open>finished tk = None\<close> ab' s3_def None] show ?thesis
              using None by (simp add: run ab' s3_def [symmetric] Let_def)
          next
            case (Some ct)
            have "Q s3 ct (cancel s3 ct)"
              using tk \<open>finished tk = None\<close> ab CancelCompositeTask Some
              by (intro "1.IH") (simp_all add: s3_def)
            from forward [OF tk \<open>finished tk = None\<close> ab' s3_def Some this] show ?thesis
              using Some by (simp add: run ab' s3_def [symmetric] Let_def)
          qed
        qed
      qed
    qed
  qed
qed

lemma outcome_cancel_mono: "outcome s u = Some p \<Longrightarrow> outcome (cancel s t) u = Some p"
proof -
  have "outcome s u = Some p \<longrightarrow> outcome (cancel s t) u = Some p"
    by (rule cancel_cases [where Q = "\<lambda>s t s'. outcome s u = Some p \<longrightarrow> outcome s' u = Some p"])
      (simp_all add: outcome_finish_mono)
  then show "outcome s u = Some p \<Longrightarrow> outcome (cancel s t) u = Some p"
    by simp
qed

lemma outcome_cancel_running:
  assumes "nth_opt (tasks s) t = Some tk" and "finished tk = None"
  shows "outcome (cancel s t) t = Some (VStr ''cancelled'', VNull)"
proof -
  let ?s1 = "finish s t (VStr ''cancelled'') VNull"
  have s1: "outcome ?s1 t = Some (VStr ''cancelled'', VNull)"
    by (rule outcome_finish_running [OF assms])
  show ?thesis
    using s1
    by (simp add: cancel_running [OF assms] Let_def outcome_cancel_mono
        split: option.splits abort.splits)
qed

lemma factory_calls_record_abort [simp]:
  "factory_calls (record_event s (AbortCalled t)) = factory_calls s"
  by (simp add: factory_calls_record_other is_factory_call_def)

lemma factory_calls_cancel [simp]: "factory_calls (cancel s t) = factory_calls s"
  by (rule cancel_cases [where Q = "\<lambda>s t s'. factory_calls s' = factory_calls s"]) simp_all

lemma trace_finish_extends: "\<exists>evs. trace (finish s t err result) = trace s @ evs"
  by (simp add: finish_def run_listener_def nextTick_def record_event_def Let_def
      split: option.splits listener.splits)

lemma trace_cancel_extends: "\<exists>evs. trace (cancel s t) = trace s @ evs"
proof (rule cancel_cases [where Q = "\<lambda>s t s'. \<exists>evs. trace s' = trace s @ evs"])
  fix s t
  show "\<exists>evs. trace s = trace s @ evs" by simp
next
  fix s :: state and t
  show "\<exists>evs. trace (finish s t (VStr ''cancelled'') VNull) = trace s @ evs"
    by (rule trace_finish_extends)
next
  fix s :: state and t
  from trace_finish_extends [of s t "VStr ''cancelled''" VNull]
  show "\<exists>evs. trace (record_event (finish s t (VStr ''cancelled'') VNull) (AbortCalled t))
      = trace s @ evs"
    by auto
next
  fix s :: state and t e s3
  assume "s3 = mark_cancelled (record_event (finish s t (VStr ''cancelled'') VNull) (AbortCalled t)) e"
  with trace_finish_extends [of s t "VStr ''cancelled''" VNull]
  show "\<exists>evs. trace s3 = trace s @ evs"
    by auto
next
  fix s :: state and t e s3 ct
  assume "s3 = mark_cancelled (record_event (finish s t (VStr ''cancelled'') VNull) (AbortCalled t)) e"
    and "\<exists>evs. trace (cancel s3 ct) = trace s3 @ evs"
  with trace_finish_extends [of s t "VStr ''cancelled''" VNull]
  show "\<exists>evs. trace (cancel s3 ct) = trace s @ evs"
    by auto
qed

lemma trace_cancel_abort:
  assumes "nth_opt (tasks s) t = Some tk" and "finished tk = None" and "abort tk = Some a"
  shows "\<exists>evs. trace (cancel s t) =
      trace (finish s t (VStr ''cancelled'') VNull) @ AbortCalled t # evs"
proof (cases a)
  case UserAbort
  with assms(3) show ?thesis
    by (simp add: cancel_running [OF assms(1,2)])
next
  case (CancelCompositeTask e)
  let ?s3 = "mark_cancelled
      (record_event (finish s t (VStr ''cancelled'') VNull) (AbortCalled t)) e"
  show ?thesis
  proof (cases "current_of ?s3 e")
    case None
    with assms(3) CancelCompositeTask show ?thesis
      by (simp add: cancel_running [OF assms(1,2)])
  next
    case (Some ct)
    from trace_cancel_extends [of ?s3 ct] obtain evs
      where "trace (cancel ?s3 ct) = trace ?s3 @ evs" ..
    with Some assms(3) CancelCompositeTask show ?thesis
      by (simp add: cancel_running [OF assms(1,2)])
  qed
qed

lemma pending_task_closed:
  "pending_task = \<lparr>tasks = [\<lparr>finished = None, onFinish = None, abort = Some UserAbort\<rparr>],
     envs = [], queue = [], trace = []\<rparr>"
  by (simp add: pending_task_def Task_start_closed sync_outcome_def returned_abort_def empty_state_def)

text \<open>The definitions, for running the operations on a given state.\<close>

lemmas run_defs =
  thenDo_def compose_def finally_do_def Task_withValue_def Task_start_def setListener_def
  finish_def resolve_def reject_def do_call_def run_listener_def nextTick_def record_event_def
  new_task_def empty_state_def call_cont_def eval_texpr_def set_current_def attach_def
  compose_tick_def run_tick_def mark_cancelled_def current_of_def loosely_null_def outcome_def
  nth_opt_def Let_def

section \<open>Calls of factories\<close>

lemma factory_calls_tasks_update [simp]: "factory_calls (s\<lparr>tasks := ts\<rparr>) = factory_calls s"
  by (simp add: factory_calls_def)

lemma factory_calls_envs_update [simp]: "factory_calls (s\<lparr>envs := es\<rparr>) = factory_calls s"
  by (simp add: factory_calls_def)

lemma factory_calls_queue_update [simp]: "factory_calls (s\<lparr>queue := q\<rparr>) = factory_calls s"
  by (simp add: factory_calls_def)

lemma factory_calls_literal [simp]:
  "factory_calls \<lparr>tasks = ts, envs = es, queue = q, trace = tr\<rparr> = filter is_factory_call tr"
  by (simp add: factory_calls_def)

lemma factory_calls_record_factory [simp]:
  "factory_calls (record_event s (FactoryCalled e sd v)) = factory_calls s @ [FactoryCalled e sd v]"
  by (simp add: factory_calls_def record_event_def is_factory_call_def)

lemma factory_calls_resolve [simp]: "factory_calls (resolve s t v) = factory_calls s"
  by (simp add: resolve_def)

lemma factory_calls_reject [simp]: "factory_calls (reject s t err) = factory_calls s"
  by (simp add: reject_def)

lemma factory_calls_Task_start [simp]: "factory_calls (fst (Task_start s st)) = factory_calls s"
  by (simp add: Task_start_closed factory_calls_def)

lemma factory_calls_setListener:
  "setListener s t l = Inr s' \<Longrightarrow> factory_calls s' = factory_calls s"
  by (auto simp: setListener_def Let_def split: option.splits if_splits)

lemma factory_calls_thenDo [simp]: "factory_calls (fst (thenDo s t F G)) = factory_calls s"
proof -
  let ?s1 = "\<lparr>tasks = tasks s @ [fresh_composite s], envs = envs s @ [fresh_env s t F G],
      queue = queue s, trace = trace s\<rparr>"
  have base: "factory_calls ?s1 = factory_calls s"
    by (simp add: factory_calls_def)
  show ?thesis
  proof (cases "setListener ?s1 t (ComposeListener (length (envs s)))")
    case (Inl err)
    with base show ?thesis
      by (simp add: thenDo_unfold Let_def)
  next
    case (Inr s2)
    from factory_calls_setListener [OF this] base Inr show ?thesis
      by (simp add: thenDo_unfold Let_def)
  qed
qed

lemma factory_calls_finally [simp]: "factory_calls (fst (finally_do s t c)) = factory_calls s"
  by (cases "setListener s t (FinallyListener c)")
    (simp_all add: finally_do_def factory_calls_setListener)

lemma factory_calls_set_current [simp]: "factory_calls (set_current s e r) = factory_calls s"
  by (simp add: set_current_def)

lemma factory_calls_call_cont [simp]: "factory_calls (fst (call_cont s k v)) = factory_calls s"
proof (cases k)
  case (UserFactory f)
  show ?thesis
  proof (cases "f v")
    case (FTask te)
    with UserFactory show ?thesis
      by (cases te) (simp_all add: call_cont_def eval_texpr_def split_beta)
  qed (simp_all add: call_cont_def UserFactory)
qed (simp_all add: call_cont_def)

lemma factory_calls_attach [simp]: "factory_calls (fst (attach s e c r)) = factory_calls s"
proof (cases r)
  case None
  then show ?thesis by (simp add: attach_def)
next
  case (Some ct)
  have "factory_calls (fst (thenDo (set_current s e (Some ct)) ct (Some (ResolveTask c))
      (Some (RejectTask c)))) = factory_calls s"
    by simp
  with Some show ?thesis
    by (cases "thenDo (set_current s e (Some ct)) ct (Some (ResolveTask c)) (Some (RejectTask c))")
      (auto simp: attach_def split: sum.splits)
qed

text \<open>The one place where a factory is called: the deferred function of \<open>compose\<close>.\<close>

lemma factory_calls_compose_tick:
  "factory_calls (fst (compose_tick s e firstErr firstResult)) =
     factory_calls s @
       (case nth_opt (envs s) e of
          None \<Rightarrow> []
        | Some env \<Rightarrow>
            if cancelled env \<or> firstErr = VStr ''cancelled'' then []
            else if loosely_null firstErr
              then (case onResolve env of
                      None \<Rightarrow> []
                    | Some k \<Rightarrow> [FactoryCalled e OnResolve firstResult])
              else (case onReject env of
                      None \<Rightarrow> []
                    | Some k \<Rightarrow> [FactoryCalled e OnReject firstErr]))"
proof -
  have step: "factory_calls (fst (case call_cont (record_event s (FactoryCalled e sd v)) k v of
        (s1, Inl err) \<Rightarrow> (reject s1 c err, Inr ())
      | (s1, Inr r) \<Rightarrow> attach s1 e c r)) = factory_calls s @ [FactoryCalled e sd v]" for sd v k c
  proof -
    have "factory_calls (fst (call_cont (record_event s (FactoryCalled e sd v)) k v))
        = factory_calls s @ [FactoryCalled e sd v]"
      by simp
    then show ?thesis
      by (cases "call_cont (record_event s (FactoryCalled e sd v)) k v")
        (auto split: sum.splits)
  qed
  show ?thesis
    by (simp add: compose_tick_def Let_def step split: option.splits)
qed

text \<open>Facts for running the operations on a state that is only partly known.\<close>

lemmas sym_defs =
  thenDo_unfold setListener_def
  finish_def resolve_def reject_def run_listener_def nextTick_def record_event_def
  compose_tick_def run_tick_def call_cont_def attach_def set_current_def eval_texpr_def
  Let_def outcome_def current_of_def mark_cancelled_def
  nth_opt_append nth_opt_update nth_opt_Cons fresh_env_def fresh_composite_def
  Task_start_closed Task_withValue_closed

lemmas pre_tick_defs =
  thenDo_unfold setListener_def
  finish_def resolve_def reject_def run_listener_def nextTick_def record_event_def
  run_tick_def Let_def outcome_def
  nth_opt_append nth_opt_update nth_opt_Cons fresh_env_def fresh_composite_def
  Task_start_closed Task_withValue_closed

lemma listened_task_closed:
  "listened_task =
     \<lparr>tasks = [\<lparr>finished = None, onFinish = Some (ComposeListener 0), abort = Some UserAbort\<rparr>,
               \<lparr>finished = None, onFinish = None, abort = Some (CancelCompositeTask 0)\<rparr>],
      envs = [\<lparr>cancelled = False, currentTask = Some 0, compositeTask = 1,
               onResolve = Some (UserFactory returns_nothing), onReject = None\<rparr>],
      queue = [], trace = []\<rparr>"
  by (simp add: listened_task_def pending_task_closed pre_tick_defs)

lemma list_update_snoc: "length xs = n \<Longrightarrow> (xs @ [x])[n := y] = xs @ [y]"
  by auto

section \<open>The deferred function of compose\<close>

lemma tasks_record_event [simp]: "tasks (record_event s ev) = tasks s"
  by (simp add: record_event_def)

lemma envs_record_event [simp]: "envs (record_event s ev) = envs s"
  by (simp add: record_event_def)

lemma queue_record_event [simp]: "queue (record_event s ev) = queue s"
  by (simp add: record_event_def)

lemma outcome_set_current [simp]: "outcome (set_current s e r) t = outcome s t"
  by (simp add: outcome_def set_current_def)

lemma outcome_queue_update [simp]: "outcome (s\<lparr>queue := q\<rparr>) t = outcome s t"
  by (simp add: outcome_def)

lemma outcome_resolve_mono: "outcome s u = Some p \<Longrightarrow> outcome (resolve s t v) u = Some p"
  by (simp add: resolve_def outcome_finish_mono)

text \<open>The deferred function of the \<open>compose\<close> call of line 212: its factories are the
  callbacks of the outer composite task \<open>c\<close>.\<close>

lemma inner_tick_finishes_composite:
  assumes env: "nth_opt (envs s) e2 = Some env2" "\<not> cancelled env2"
      "onResolve env2 = Some (ResolveTask c)" "onReject env2 = Some (RejectTask c)"
    and comp: "nth_opt (tasks s) c = Some tkc" "finished tkc = None"
    and err: "err \<noteq> VStr ''cancelled''"
  shows "outcome (fst (compose_tick s e2 err res)) c =
      Some (if loosely_null err then (VNull, res) else (err, VNull))"
proof (cases "loosely_null err")
  case True
  let ?s0 = "record_event s (FactoryCalled e2 OnResolve res)"
  have at: "nth_opt (tasks ?s0) c = Some tkc"
    using comp(1) by simp
  have "outcome (resolve ?s0 c res) c = Some (VNull, res)"
    unfolding resolve_def by (rule outcome_finish_running [OF at comp(2)])
  then have "outcome (resolve (set_current (resolve ?s0 c res) e2 None)
      (compositeTask env2) VUndefined) c = Some (VNull, res)"
    by (intro outcome_resolve_mono) simp
  then show ?thesis
    using True env err
    by (simp add: compose_tick_def call_cont_def attach_def Let_def)
next
  case False
  let ?s0 = "record_event s (FactoryCalled e2 OnReject err)"
  have at: "nth_opt (tasks ?s0) c = Some tkc"
    using comp(1) by simp
  have "outcome (reject ?s0 c err) c = Some (err, VNull)"
    unfolding reject_def by (rule outcome_finish_running [OF at comp(2)])
  then have "outcome (resolve (set_current (reject ?s0 c err) e2 None)
      (compositeTask env2) VUndefined) c = Some (err, VNull)"
    by (intro outcome_resolve_mono) simp
  then show ?thesis
    using False env err
    by (simp add: compose_tick_def call_cont_def attach_def Let_def)
qed

lemma eval_texpr_keeps:
  assumes "eval_texpr s te = (s', sub)"
  shows "envs s' = envs s" and "queue s' = queue s" and "trace s' = trace s"
    and "nth_opt (tasks s) c = Some tkc \<Longrightarrow> nth_opt (tasks s') c = Some tkc"
    and "eval_texpr (record_event s ev) te = (record_event s' ev, sub)"
  using assms
  by (cases te; auto simp: eval_texpr_def Task_start_closed nth_opt_append record_event_def
      dest: nth_opt_lt)+

text \<open>The deferred function of \<open>compose\<close> when the chosen factory returns a task that has
  no listener: the state it leaves.\<close>

lemma compose_tick_attaches:
  assumes env: "nth_opt (envs s) e = Some env" "\<not> cancelled env"
    and first: "firstErr \<noteq> VStr ''cancelled''"
    and chosen: "(if loosely_null firstErr then onResolve env else onReject env)
        = Some (UserFactory f)"
    and made: "f (if loosely_null firstErr then firstResult else firstErr) = FTask te"
      "eval_texpr s te = (s', sub)"
    and sub: "nth_opt (tasks s') sub = Some tks" "onFinish tks = None"
  shows "compose_tick s e firstErr firstResult =
     (\<lparr>tasks = (tasks s')[sub := tks\<lparr>onFinish := Some (ComposeListener (length (envs s)))\<rparr>]
          @ [\<lparr>finished = None, onFinish = None,
              abort = Some (CancelCompositeTask (length (envs s)))\<rparr>],
       envs = (envs s)[e := env\<lparr>currentTask := Some sub\<rparr>]
          @ [\<lparr>cancelled = False,
              currentTask = (case finished tks of None \<Rightarrow> Some sub | Some p \<Rightarrow> None),
              compositeTask = length (tasks s'),
              onResolve = Some (ResolveTask (compositeTask env)),
              onReject = Some (RejectTask (compositeTask env))\<rparr>],
       queue = queue s @
          (case finished tks of
             None \<Rightarrow> []
           | Some (err, res) \<Rightarrow> [ComposeTick (length (envs s)) err res]),
       trace = trace s @
          [if loosely_null firstErr then FactoryCalled e OnResolve firstResult
           else FactoryCalled e OnReject firstErr] @
          (case finished tks of
             None \<Rightarrow> []
           | Some (err, res) \<Rightarrow> [ListenerCalled sub err res])\<rparr>,
      Inr ())"
proof -
  from env(1) have e: "e < length (envs s)"
    by (rule nth_opt_lt)
  from sub(1) have lt: "sub < length (tasks s')"
    by (rule nth_opt_lt)
  note keep = eval_texpr_keeps [OF made(2)]
  let ?ev = "if loosely_null firstErr then FactoryCalled e OnResolve firstResult
           else FactoryCalled e OnReject firstErr"
  define X where "X = set_current (record_event s' ?ev) e (Some sub)"
  have X: "tasks X = tasks s'" "envs X = (envs s)[e := env\<lparr>currentTask := Some sub\<rparr>]"
    "queue X = queue s" "trace X = trace s @ [?ev]"
    using env(1) by (simp_all add: X_def set_current_def record_event_def keep)
  have at: "nth_opt (tasks X) sub = Some tks"
    using sub(1) by (simp add: X)
  have attach: "attach (record_event s' ?ev) e (compositeTask env) (Some sub) =
      (case thenDo X sub (Some (ResolveTask (compositeTask env)))
              (Some (RejectTask (compositeTask env))) of
         (s2, Inl err) \<Rightarrow> (s2, Inl err)
       | (s2, Inr c2) \<Rightarrow> (s2, Inr ()))"
    by (simp add: attach_def Let_def X_def)
  have tick: "compose_tick s e firstErr firstResult =
      attach (record_event s' ?ev) e (compositeTask env) (Some sub)"
    using env first chosen made(1) keep(5)
    by (simp add: compose_tick_def call_cont_def Let_def split: if_splits)
  show ?thesis
  proof (cases "finished tks")
    case None
    show ?thesis
      using None e lt
      by (simp add: tick attach thenDo_first_running [OF at sub(2) None] X fresh_composite_def
          fresh_env_def)
  next
    case (Some p)
    obtain err res where p: "p = (err, res)"
      by (cases p)
    with Some have fin: "finished tks = Some (err, res)"
      by simp
    show ?thesis
      using fin e lt
      by (simp add: tick attach thenDo_first_finished [OF at sub(2) fin] X fresh_composite_def
          fresh_env_def)
  qed
qed

lemma chain_started_closed:
  "chain_started =
     \<lparr>tasks = [\<lparr>finished = Some (VNull, VNum 5), onFinish = Some (ComposeListener 0), abort = None\<rparr>,
               \<lparr>finished = None, onFinish = None, abort = Some (CancelCompositeTask 0)\<rparr>],
      envs = [\<lparr>cancelled = False, currentTask = None, compositeTask = 1,
               onResolve = Some (UserFactory plus_one), onReject = None\<rparr>],
      queue = [ComposeTick 0 VNull (VNum 5)],
      trace = [ListenerCalled 0 VNull (VNum 5)]\<rparr>"
  by (simp add: chain_started_def empty_state_def pre_tick_defs)

lemma chain_turn1_closed:
  "chain_turn1 =
     \<lparr>tasks = [\<lparr>finished = Some (VNull, VNum 5), onFinish = Some (ComposeListener 0), abort = None\<rparr>,
               \<lparr>finished = None, onFinish = None, abort = Some (CancelCompositeTask 0)\<rparr>,
               \<lparr>finished = Some (VNull, VNum 6), onFinish = Some (ComposeListener 1), abort = None\<rparr>,
               \<lparr>finished = None, onFinish = None, abort = Some (CancelCompositeTask 1)\<rparr>],
      envs = [\<lparr>cancelled = False, currentTask = Some 2, compositeTask = 1,
               onResolve = Some (UserFactory plus_one), onReject = None\<rparr>,
              \<lparr>cancelled = False, currentTask = None, compositeTask = 3,
               onResolve = Some (ResolveTask 1), onReject = Some (RejectTask 1)\<rparr>],
      queue = [ComposeTick 1 VNull (VNum 6)],
      trace = [ListenerCalled 0 VNull (VNum 5), FactoryCalled 0 OnResolve (VNum 5),
               ListenerCalled 2 VNull (VNum 6)]\<rparr>"
  by (simp add: chain_turn1_def chain_started_closed sym_defs plus_one_def loosely_null_def
      sync_outcome_def returned_abort_def completion_pair_def)

lemma slow_chain_closed:
  "slow_chain =
     \<lparr>tasks = [\<lparr>finished = Some (VNull, VNum 5), onFinish = Some (ComposeListener 0),
                abort = Some UserAbort\<rparr>,
               \<lparr>finished = None, onFinish = None, abort = Some (CancelCompositeTask 0)\<rparr>],
      envs = [\<lparr>cancelled = False, currentTask = None, compositeTask = 1,
               onResolve = Some (UserFactory slow_task), onReject = None\<rparr>],
      queue = [],
      trace = [ListenerCalled 0 VNull (VNum 5)]\<rparr>"
  by (simp add: slow_chain_def pending_task_closed pre_tick_defs)

lemma trace_finish:
  "trace (finish s t err result) =
     trace s @
       (case nth_opt (tasks s) t of
          None \<Rightarrow> []
        | Some tk \<Rightarrow>
            if finished tk \<noteq> None then []
            else (case onFinish tk of None \<Rightarrow> [] | Some l \<Rightarrow> [ListenerCalled t err result]))"
  by (simp add: finish_def run_listener_def nextTick_def record_event_def Let_def
      split: option.splits listener.splits)

lemma bare_task_closed:
  "bare_task = \<lparr>tasks = [\<lparr>finished = None, onFinish = None, abort = None\<rparr>],
     envs = [], queue = [], trace = []\<rparr>"
  by (simp add: bare_task_def Task_start_closed sync_outcome_def returned_abort_def empty_state_def)

lemma failed_task_closed:
  "failed_task =
     \<lparr>tasks = [\<lparr>finished = Some (VStr ''E'', VNull), onFinish = None, abort = None\<rparr>],
      envs = [], queue = [], trace = []\<rparr>"
  by (simp add: failed_task_def Task_start_closed sync_outcome_def returned_abort_def
      completion_pair_def empty_state_def)

lemma current_of_thenDo:
  assumes "e < length (envs s)"
  shows "current_of (fst (thenDo s t F G)) e = current_of s e"
  using assms
  by (auto simp: thenDo_unfold setListener_def run_listener_def nextTick_def record_event_def
      Let_def current_of_def nth_opt_append nth_opt_update nth_opt_Cons
      split: option.splits if_splits)

text \<open>The deferred function of \<open>compose\<close> after a first task whose error is null or
  undefined, with a function of the caller as \<open>onResolve\<close>: what it leaves depends on what
  that function does with the result of the first task.\<close>

lemma compose_tick_onResolve:
  assumes env: "nth_opt (envs s) e = Some env" "\<not> cancelled env"
      "onResolve env = Some (UserFactory f)" "compositeTask env = c"
    and comp: "nth_opt (tasks s) c = Some tkc" "finished tkc = None"
    and null: "loosely_null firstErr"
  shows "(case f firstResult of
            FThrow thrown \<Rightarrow>
              snd (compose_tick s e firstErr firstResult) = Inr ()
              \<and> outcome (fst (compose_tick s e firstErr firstResult)) c = Some (thrown, VNull)
          | FNothing \<Rightarrow>
              snd (compose_tick s e firstErr firstResult) = Inr ()
              \<and> outcome (fst (compose_tick s e firstErr firstResult)) c = Some (VNull, VUndefined)
          | FTask (Start st) \<Rightarrow>
              snd (compose_tick s e firstErr firstResult) = Inr ()
              \<and> outcome (fst (compose_tick s e firstErr firstResult)) c = None
              \<and> current_of (fst (compose_tick s e firstErr firstResult)) e
                  = Some (length (tasks s))
              \<and> outcome (fst (compose_tick s e firstErr firstResult)) (length (tasks s))
                  = sync_outcome st
          | FTask (Existing t) \<Rightarrow>
              current_of (fst (compose_tick s e firstErr firstResult)) e = Some t)"
proof -
  from null have ns: "firstErr \<noteq> VStr ''cancelled''"
    by (auto simp: loosely_null_def)
  from env(1) have e: "e < length (envs s)"
    by (rule nth_opt_lt)
  from comp(1) have c: "c < length (tasks s)"
    by (rule nth_opt_lt)
  let ?s0 = "record_event s (FactoryCalled e OnResolve firstResult)"
  have at: "nth_opt (tasks ?s0) c = Some tkc"
    using comp(1) by simp
  show ?thesis
  proof (cases "f firstResult")
    case (FThrow thrown)
    have "outcome (reject ?s0 c thrown) c = Some (thrown, VNull)"
      unfolding reject_def by (rule outcome_finish_running [OF at comp(2)])
    then show ?thesis
      using FThrow env null ns by (simp add: compose_tick_def call_cont_def Let_def)
  next
    case FNothing
    let ?s1 = "set_current ?s0 e None"
    have "nth_opt (tasks ?s1) c = Some tkc"
      using comp(1) by (simp add: set_current_def)
    then have "outcome (resolve ?s1 c VUndefined) c = Some (VNull, VUndefined)"
      unfolding resolve_def by (rule outcome_finish_running [OF _ comp(2)])
    then show ?thesis
      using FNothing env null ns
      by (simp add: compose_tick_def call_cont_def attach_def Let_def)
  next
    case (FTask te)
    show ?thesis
    proof (cases te)
      case (Start st)
      let ?tks = "\<lparr>finished = sync_outcome st, onFinish = None, abort = returned_abort st\<rparr>"
      let ?s' = "\<lparr>tasks = tasks s @ [?tks], envs = envs s, queue = queue s, trace = trace s\<rparr>"
      have made: "f (if loosely_null firstErr then firstResult else firstErr) = FTask te"
        using FTask null by simp
      have chosen: "(if loosely_null firstErr then onResolve env else onReject env)
          = Some (UserFactory f)"
        using env(3) null by simp
      have ev: "eval_texpr s te = (?s', length (tasks s))"
        using Start by (simp add: eval_texpr_def Task_start_closed)
      have sub: "nth_opt (tasks ?s') (length (tasks s)) = Some ?tks" "onFinish ?tks = None"
        by (simp_all add: nth_opt_append nth_opt_Cons)
      note closed = compose_tick_attaches [OF env(1,2) ns chosen made ev sub]
      show ?thesis
        using FTask Start e c comp
        by (simp add: closed outcome_def current_of_def nth_opt_append nth_opt_update
            nth_opt_Cons list_update_snoc)
    next
      case (Existing t)
      let ?s1 = "set_current ?s0 e (Some t)"
      have e1: "e < length (envs ?s1)"
        using e by (simp add: set_current_def split: option.splits)
      have cur: "current_of ?s1 e = Some t"
        using env(1) e by (simp add: current_of_def set_current_def nth_opt_update)
      have "current_of (fst (thenDo ?s1 t (Some (ResolveTask c)) (Some (RejectTask c)))) e
          = Some t"
        using current_of_thenDo [OF e1] cur by simp
      then show ?thesis
        using FTask Existing env null ns
        by (cases "thenDo ?s1 t (Some (ResolveTask c)) (Some (RejectTask c))")
          (auto simp: compose_tick_def call_cont_def attach_def eval_texpr_def Let_def
            split: sum.splits)
    qed
  qed
qed

section \<open>A sub-task returned by a continuation factory\<close>

text \<open>
  Claim C1, as amended. Let the deferred function of \<open>compose\<close> run for a composite task
  \<open>c\<close> that is still running and was not cancelled, after a first task whose error is
  not the sentinel, with nothing else pending on the queue, and let the chosen factory
  (\<open>onResolve\<close> when the error of the first task is null or undefined, \<open>onReject\<close>
  otherwise) return a task \<open>sub\<close> that has no listener and is not \<open>c\<close> itself. Then the
  function ends normally, \<open>sub\<close> is the current task of the composite, and \<open>c\<close> is still
  running, also when \<open>sub\<close> has finished already. The outcome \<open>(err, res)\<close> of \<open>sub\<close>, when
  it is there at once or when a later completion records it, only queues a deferred
  function; \<open>c\<close> is still running in the state where \<open>sub\<close> has its outcome. When that
  function runs as the next turn and \<open>err\<close> is not the sentinel, \<open>c\<close> finishes: with
  \<open>(null, res)\<close> if \<open>err\<close> is null or undefined, with \<open>(err, null)\<close> otherwise.
\<close>

theorem subtask_outcome_reaches_composite:
  assumes env: "nth_opt (envs s) e = Some env" "\<not> cancelled env" "compositeTask env = c"
    and comp: "nth_opt (tasks s) c = Some tkc" "finished tkc = None"
    and first: "firstErr \<noteq> VStr ''cancelled''"
    and chosen: "(if loosely_null firstErr then onResolve env else onReject env)
        = Some (UserFactory f)"
    and made: "f (if loosely_null firstErr then firstResult else firstErr) = FTask te"
      "eval_texpr s te = (s', sub)"
    and sub: "nth_opt (tasks s') sub = Some tks" "onFinish tks = None" "sub \<noteq> c"
    and q: "queue s = []"
  shows "(let (s1, x) = compose_tick s e firstErr firstResult;
              e2 = length (envs s)
          in x = Inr () \<and> current_of s1 e = Some sub
             \<and> outcome s1 c = None \<and> outcome s1 sub = finished tks
             \<and> (\<forall>err res. finished tks = Some (err, res) \<longrightarrow>
                   queue s1 = [ComposeTick e2 err res]
                 \<and> (err \<noteq> VStr ''cancelled'' \<longrightarrow>
                       outcome (fst (run_tick s1)) c =
                         Some (if loosely_null err then (VNull, res) else (err, VNull))))
             \<and> (finished tks = None \<longrightarrow>
                   queue s1 = []
                 \<and> (\<forall>err res.
                       (let s2 = finish s1 sub err res
                        in outcome s2 sub = Some (err, res) \<and> outcome s2 c = None
                           \<and> queue s2 = [ComposeTick e2 err res]
                           \<and> (err \<noteq> VStr ''cancelled'' \<longrightarrow>
                                outcome (fst (run_tick s2)) c =
                                  Some (if loosely_null err then (VNull, res) else (err, VNull)))))))"
proof -
  let ?e2 = "length (envs s)"
  let ?tks = "tks\<lparr>onFinish := Some (ComposeListener ?e2)\<rparr>"
  define env2 where "env2 = \<lparr>cancelled = False,
      currentTask = (case finished tks of None \<Rightarrow> Some sub | Some p \<Rightarrow> None),
      compositeTask = length (tasks s'),
      onResolve = Some (ResolveTask c), onReject = Some (RejectTask c)\<rparr>"
  define s1 where "s1 = fst (compose_tick s e firstErr firstResult)"
  from env(1) have e: "e < length (envs s)"
    by (rule nth_opt_lt)
  from sub(1) have lt: "sub < length (tasks s')"
    by (rule nth_opt_lt)
  note keep = eval_texpr_keeps [OF made(2)]
  from keep(4) [OF comp(1)] have c': "nth_opt (tasks s') c = Some tkc" .
  then have c: "c < length (tasks s')"
    by (rule nth_opt_lt)
  note closed = compose_tick_attaches [OF env(1,2) first chosen made sub(1,2)]
  have x: "snd (compose_tick s e firstErr firstResult) = Inr ()"
    by (simp add: closed)
  have tasks1: "tasks s1 = (tasks s')[sub := ?tks] @
      [\<lparr>finished = None, onFinish = None, abort = Some (CancelCompositeTask ?e2)\<rparr>]"
    and envs1: "envs s1 = (envs s)[e := env\<lparr>currentTask := Some sub\<rparr>] @ [env2]"
    and queue1: "queue s1 = (case finished tks of None \<Rightarrow> []
      | Some (err, res) \<Rightarrow> [ComposeTick ?e2 err res])"
    by (simp_all add: s1_def closed env2_def env(3) q)
  have cur: "current_of s1 e = Some sub"
    using e by (simp add: current_of_def envs1 nth_opt_append nth_opt_update)
  have at_c: "nth_opt (tasks s1) c = Some tkc"
    using c c' sub(3) by (simp add: tasks1 nth_opt_append nth_opt_update)
  have at_sub: "nth_opt (tasks s1) sub = Some ?tks"
    using lt by (simp add: tasks1 nth_opt_append nth_opt_update)
  have at_e2: "nth_opt (envs s1) ?e2 = Some env2"
    by (simp add: envs1 nth_opt_append nth_opt_Cons)
  have out_c: "outcome s1 c = None"
    using comp(2) by (simp add: outcome_def at_c)
  have out_sub: "outcome s1 sub = finished tks"
    by (simp add: outcome_def at_sub)
  have env2: "\<not> cancelled env2" "onResolve env2 = Some (ResolveTask c)"
    "onReject env2 = Some (RejectTask c)"
    by (simp_all add: env2_def)
  have sync: "queue s1 = [ComposeTick ?e2 err res]
      \<and> (err \<noteq> VStr ''cancelled'' \<longrightarrow> outcome (fst (run_tick s1)) c =
            Some (if loosely_null err then (VNull, res) else (err, VNull)))"
    if fin: "finished tks = Some (err, res)" for err res
  proof -
    have qu: "queue s1 = [ComposeTick ?e2 err res]"
      by (simp add: queue1 fin)
    then have run: "run_tick s1 = compose_tick (s1\<lparr>queue := []\<rparr>) ?e2 err res"
      by (simp add: run_tick_def Let_def)
    have "outcome (fst (compose_tick (s1\<lparr>queue := []\<rparr>) ?e2 err res)) c =
        Some (if loosely_null err then (VNull, res) else (err, VNull))"
      if "err \<noteq> VStr ''cancelled''"
      by (rule inner_tick_finishes_composite [OF _ env2 _ comp(2) that])
        (simp_all add: at_e2 at_c)
    with qu run show ?thesis
      by simp
  qed
  have later: "(let s2 = finish s1 sub err res
       in outcome s2 sub = Some (err, res) \<and> outcome s2 c = None
          \<and> queue s2 = [ComposeTick ?e2 err res]
          \<and> (err \<noteq> VStr ''cancelled'' \<longrightarrow> outcome (fst (run_tick s2)) c =
                Some (if loosely_null err then (VNull, res) else (err, VNull))))"
    if run: "finished tks = None" for err res
  proof -
    define s2 where "s2 = finish s1 sub err res"
    have run': "finished ?tks = None"
      using run by simp
    have a: "outcome s2 sub = Some (err, res)"
      unfolding s2_def by (rule outcome_finish_running [OF at_sub run'])
    have b: "outcome s2 c = None"
      using sub(3) out_c by (simp add: s2_def outcome_finish_other)
    have s2: "tasks s2 = (tasks s1)[sub := ?tks\<lparr>finished := Some (err, res)\<rparr>]"
      "envs s2 = (envs s1)[?e2 := env2\<lparr>currentTask := None\<rparr>]"
      "queue s2 = [ComposeTick ?e2 err res]"
      using run
      by (simp_all add: s2_def finish_running [OF at_sub run'] run_listener_def nextTick_def
          record_event_def Let_def at_e2 queue1)
    from s2(3) have tick: "run_tick s2 = compose_tick (s2\<lparr>queue := []\<rparr>) ?e2 err res"
      by (simp add: run_tick_def Let_def)
    have at_e2': "nth_opt (envs (s2\<lparr>queue := []\<rparr>)) ?e2 = Some (env2\<lparr>currentTask := None\<rparr>)"
      by (simp add: s2 envs1 nth_opt_update)
    have at_c': "nth_opt (tasks (s2\<lparr>queue := []\<rparr>)) c = Some tkc"
      using sub(3) by (simp add: s2 nth_opt_update at_c)
    have "outcome (fst (compose_tick (s2\<lparr>queue := []\<rparr>) ?e2 err res)) c =
        Some (if loosely_null err then (VNull, res) else (err, VNull))"
      if "err \<noteq> VStr ''cancelled''"
      by (rule inner_tick_finishes_composite [OF at_e2' _ _ _ at_c' comp(2) that])
        (simp_all add: env2)
    with a b s2(3) tick show ?thesis
      by (simp add: s2_def Let_def)
  qed
  have "x = Inr () \<and> current_of s1' e = Some sub
             \<and> outcome s1' c = None \<and> outcome s1' sub = finished tks
             \<and> (\<forall>err res. finished tks = Some (err, res) \<longrightarrow>
                   queue s1' = [ComposeTick ?e2 err res]
                 \<and> (err \<noteq> VStr ''cancelled'' \<longrightarrow>
                       outcome (fst (run_tick s1')) c =
                         Some (if loosely_null err then (VNull, res) else (err, VNull))))
             \<and> (finished tks = None \<longrightarrow>
                   queue s1' = []
                 \<and> (\<forall>err res.
                       (let s2 = finish s1' sub err res
                        in outcome s2 sub = Some (err, res) \<and> outcome s2 c = None
                           \<and> queue s2 = [ComposeTick ?e2 err res]
                           \<and> (err \<noteq> VStr ''cancelled'' \<longrightarrow>
                                outcome (fst (run_tick s2)) c =
                                  Some (if loosely_null err then (VNull, res) else (err, VNull))))))"
    if "compose_tick s e firstErr firstResult = (s1', x)" for s1' x
  proof -
    from that have "s1' = s1" and "x = Inr ()"
      using x by (simp_all add: s1_def)
    with cur out_c out_sub sync later queue1 show ?thesis
      by simp
  qed
  then show ?thesis
    by (simp add: Let_def split: prod.splits)
qed

text \<open>
  The claim as stated fails for \<open>Task.withValue(5).thenDo(v => Task.withValue(v + 1))\<close>.
  After the turn in which the factory runs, the sub-task (task 2) has finished with
  \<open>(null, 6)\<close> and the composite task (task 1) has not finished. If the composite task is
  cancelled at that moment and the queue then runs until it is empty, the composite
  task ends with \<open>('cancelled', null)\<close>, which is not the outcome of the sub-task.
\<close>

theorem composite_lags_behind_subtask_counterexample:
  "outcome chain_turn1 2 = Some (VNull, VNum 6)
   \<and> outcome chain_turn1 1 = None
   \<and> outcome (fst (run_tick (cancel chain_turn1 1))) 2 = Some (VNull, VNum 6)
   \<and> outcome (fst (run_tick (cancel chain_turn1 1))) 1 = Some (VStr ''cancelled'', VNull)
   \<and> queue (fst (run_tick (cancel chain_turn1 1))) = []"
  by (simp add: chain_turn1_closed sym_defs cancel.simps loosely_null_def)

text \<open>In the same chain, left alone, the composite task is resolved with 6 one turn
  after the sub-task. In the chain whose factory returns a task that completes later,
  the sub-task is rejected with "E": the composite task is still running then, and is
  rejected with "E" by the next turn.\<close>

theorem subtask_outcome_reaches_composite_witness:
  "outcome (fst (compose_tick (chain_started\<lparr>queue := []\<rparr>) 0 VNull (VNum 5))) 2
     = Some (VNull, VNum 6)
   \<and> outcome (fst (compose_tick (chain_started\<lparr>queue := []\<rparr>) 0 VNull (VNum 5))) 1 = None
   \<and> outcome (fst (run_tick (fst (compose_tick (chain_started\<lparr>queue := []\<rparr>) 0 VNull (VNum 5))))) 1
     = Some (VNull, VNum 6)
   \<and> outcome (fst (compose_tick slow_chain 0 VNull (VNum 5))) 2 = None
   \<and> outcome (finish (fst (compose_tick slow_chain 0 VNull (VNum 5))) 2 (VStr ''E'') VNull) 1
     = None
   \<and> outcome (fst (run_tick (finish (fst (compose_tick slow_chain 0 VNull (VNum 5))) 2
        (VStr ''E'') VNull))) 1 = Some (VStr ''E'', VNull)"
proof -
  let ?c = "\<lparr>finished = None, onFinish = None, abort = Some (CancelCompositeTask 0)\<rparr>"
  let ?env1 = "\<lparr>cancelled = False, currentTask = None, compositeTask = 1,
      onResolve = Some (UserFactory plus_one), onReject = None\<rparr>"
  let ?st1 = "\<lparr>calls = [CallResolve (VNum 6)], ending = Return None\<rparr>"
  let ?sub1 = "\<lparr>finished = Some (VNull, VNum 6), onFinish = None, abort = None\<rparr>"
  let ?s1 = "chain_started\<lparr>queue := []\<rparr>"
  have n: "loosely_null VNull" "VNull \<noteq> VStr ''cancelled''" "VStr ''E'' \<noteq> VStr ''cancelled''"
    "\<not> loosely_null (VStr ''E'')" "(2::nat) \<noteq> 1"
    by (simp_all add: loosely_null_def)
  have one: "outcome (fst (compose_tick ?s1 0 VNull (VNum 5))) 2 = Some (VNull, VNum 6)
   \<and> outcome (fst (compose_tick ?s1 0 VNull (VNum 5))) 1 = None
   \<and> outcome (fst (run_tick (fst (compose_tick ?s1 0 VNull (VNum 5))))) 1 = Some (VNull, VNum 6)"
  proof -
    have env: "nth_opt (envs ?s1) 0 = Some ?env1" "\<not> cancelled ?env1" "compositeTask ?env1 = 1"
      and comp: "nth_opt (tasks ?s1) 1 = Some ?c" "finished ?c = None"
      and chosen: "(if loosely_null VNull then onResolve ?env1 else onReject ?env1)
        = Some (UserFactory plus_one)"
      and made: "plus_one (if loosely_null VNull then VNum 5 else VNull) = FTask (Start ?st1)"
      and q: "queue ?s1 = []"
      by (simp_all add: chain_started_closed nth_opt_Cons n plus_one_def)
    obtain s' where ev: "eval_texpr ?s1 (Start ?st1) = (s', 2)"
      and sub: "nth_opt (tasks s') 2 = Some ?sub1"
      by (simp add: eval_texpr_def Task_start_closed chain_started_closed nth_opt_append
          nth_opt_Cons sync_outcome_def returned_abort_def completion_pair_def)
    have lis: "onFinish ?sub1 = None"
      by simp
    from subtask_outcome_reaches_composite [OF env comp n(2) chosen made ev sub lis n(5) q]
    show ?thesis
      by (simp add: Let_def split_beta n)
  qed
  let ?env2 = "\<lparr>cancelled = False, currentTask = None, compositeTask = 1,
      onResolve = Some (UserFactory slow_task), onReject = None\<rparr>"
  let ?st2 = "\<lparr>calls = [], ending = Return (Some UserAbort)\<rparr>"
  let ?sub2 = "\<lparr>finished = None, onFinish = None, abort = Some UserAbort\<rparr>"
  have two: "outcome (fst (compose_tick slow_chain 0 VNull (VNum 5))) 2 = None
   \<and> outcome (finish (fst (compose_tick slow_chain 0 VNull (VNum 5))) 2 (VStr ''E'') VNull) 1
     = None
   \<and> outcome (fst (run_tick (finish (fst (compose_tick slow_chain 0 VNull (VNum 5))) 2
        (VStr ''E'') VNull))) 1 = Some (VStr ''E'', VNull)"
  proof -
    have env: "nth_opt (envs slow_chain) 0 = Some ?env2" "\<not> cancelled ?env2"
        "compositeTask ?env2 = 1"
      and comp: "nth_opt (tasks slow_chain) 1 = Some ?c" "finished ?c = None"
      and chosen: "(if loosely_null VNull then onResolve ?env2 else onReject ?env2)
        = Some (UserFactory slow_task)"
      and made: "slow_task (if loosely_null VNull then VNum 5 else VNull) = FTask (Start ?st2)"
      and q: "queue slow_chain = []"
      by (simp_all add: slow_chain_closed nth_opt_Cons n slow_task_def)
    obtain s' where ev: "eval_texpr slow_chain (Start ?st2) = (s', 2)"
      and sub: "nth_opt (tasks s') 2 = Some ?sub2"
      by (simp add: eval_texpr_def Task_start_closed slow_chain_closed nth_opt_append
          nth_opt_Cons sync_outcome_def returned_abort_def)
    have lis: "onFinish ?sub2 = None"
      by simp
    from subtask_outcome_reaches_composite [OF env comp n(2) chosen made ev sub lis n(5) q]
    show ?thesis
      by (simp add: Let_def split_beta n)
  qed
  from one two show ?thesis
    by simp
qed

text \<open>A sub-task that fails with the sentinel, here by its own starter, is not covered
  by the theorem: its deferred function rejects the inner composite task of line 212
  and never calls the callbacks of \<open>c\<close>. The queue runs empty and \<open>c\<close> is still running.\<close>

lemma subtask_sentinel_leaves_composite_running:
  "outcome (fst (run_tick (fst (run_tick (fst (thenDo (fst (Task_withValue empty_state (VNum 5))) 0
      (Some (UserFactory rejects_cancelled)) None)))))) 2 = Some (VStr ''cancelled'', VNull)
   \<and> outcome (fst (run_tick (fst (run_tick (fst (thenDo (fst (Task_withValue empty_state (VNum 5))) 0
      (Some (UserFactory rejects_cancelled)) None)))))) 1 = None
   \<and> queue (fst (run_tick (fst (run_tick (fst (thenDo (fst (Task_withValue empty_state (VNum 5))) 0
      (Some (UserFactory rejects_cancelled)) None)))))) = []"
  by (simp add: empty_state_def sym_defs rejects_cancelled_def loosely_null_def
      sync_outcome_def returned_abort_def completion_pair_def)

section \<open>Cancelling a composite task\<close>

text \<open>
  Claim C2. Let \<open>thenDo\<close> be called on a running task \<open>a\<close>, giving the composite task \<open>c\<close>.
  \<^item> If \<open>c.cancel()\<close> is called next, \<open>c\<close> and \<open>a\<close> both finish with the outcome
    \<open>('cancelled', null)\<close>, and the trace grows by the call of the abort function of \<open>c\<close>
    (\<open>cancelCompositeTask\<close>), the call of the listener of \<open>a\<close> and, when \<open>a\<close> has an abort
    function, the call of that function.
  \<^item> If instead \<open>a\<close> is resolved with \<open>v\<close>, the queue runs one turn, in which \<open>onResolve(v)\<close>
    starts a sub-task that has an abort function and is still running, and then
    \<open>c.cancel()\<close> is called: \<open>c\<close> and the sub-task finish with \<open>('cancelled', null)\<close>, the
    outcome of \<open>a\<close> stays \<open>(null, v)\<close>, and the trace grows by exactly the call of
    \<open>cancelCompositeTask\<close>, the call of the listener of the sub-task and the call of the
    abort function of the sub-task: the abort function of \<open>a\<close> is not called.
\<close>

theorem cancel_is_forwarded:
  assumes "nth_opt (tasks s) a = Some tk" and "onFinish tk = None" and "finished tk = None"
  shows "(let (s1, r) = thenDo s a F G;
              c = length (tasks s);
              s2 = cancel s1 c
          in r = Inr c
             \<and> outcome s2 c = Some (VStr ''cancelled'', VNull)
             \<and> outcome s2 a = Some (VStr ''cancelled'', VNull)
             \<and> (abort tk = None \<longrightarrow>
                  trace s2 = trace s @
                    [AbortCalled c, ListenerCalled a (VStr ''cancelled'') VNull])
             \<and> (abort tk = Some UserAbort \<longrightarrow>
                  trace s2 = trace s @
                    [AbortCalled c, ListenerCalled a (VStr ''cancelled'') VNull, AbortCalled a])
             \<and> (abort tk \<noteq> None \<longrightarrow>
                  (\<exists>evs. trace s2 = trace s @
                    [AbortCalled c, ListenerCalled a (VStr ''cancelled'') VNull, AbortCalled a]
                    @ evs)))
       \<and> (queue s = [] \<and> f v = FTask (Start \<lparr>calls = [], ending = Return (Some UserAbort)\<rparr>) \<longrightarrow>
          (let (s1, r) = thenDo s a (Some (UserFactory f)) G;
               c = length (tasks s);
               s2 = resolve s1 a v;
               (s3, x) = run_tick s2;
               sub = Suc (length (tasks s));
               s4 = cancel s3 c
           in outcome s3 a = Some (VNull, v) \<and> outcome s3 sub = None \<and> outcome s3 c = None
              \<and> current_of s3 (length (envs s)) = Some sub
              \<and> outcome s4 c = Some (VStr ''cancelled'', VNull)
              \<and> outcome s4 sub = Some (VStr ''cancelled'', VNull)
              \<and> outcome s4 a = Some (VNull, v)
              \<and> trace s4 = trace s3 @
                   [AbortCalled c, ListenerCalled sub (VStr ''cancelled'') VNull, AbortCalled sub]))"
proof -
  let ?e = "length (envs s)" and ?c = "length (tasks s)"
  let ?tk' = "tk\<lparr>onFinish := Some (ComposeListener ?e)\<rparr>"
  let ?s1 = "\<lparr>tasks = (tasks s)[a := ?tk'] @ [fresh_composite s],
       envs = envs s @ [fresh_env s a F G], queue = queue s, trace = trace s\<rparr>"
  let ?s3 = "\<lparr>tasks = (tasks s)[a := ?tk'] @
         [\<lparr>finished = Some (VStr ''cancelled'', VNull), onFinish = None,
           abort = Some (CancelCompositeTask ?e)\<rparr>],
       envs = envs s @ [(fresh_env s a F G)\<lparr>cancelled := True\<rparr>],
       queue = queue s, trace = trace s @ [AbortCalled ?c]\<rparr>"
  from assms(1) have lt: "a < length (tasks s)"
    by (rule nth_opt_lt)
  have then_do: "thenDo s a F G = (?s1, Inr ?c)"
    by (rule thenDo_first_running [OF assms])
  have forward: "cancel ?s1 ?c = cancel ?s3 a"
    using lt
    by (subst cancel.simps)
      (simp add: finish_def record_event_def mark_cancelled_def current_of_def Let_def
        nth_opt_append nth_opt_update nth_opt_Cons fresh_composite_def fresh_env_def
        list_update_snoc)
  have at: "nth_opt (tasks ?s3) a = Some ?tk'"
    using lt by (simp add: nth_opt_append nth_opt_update)
  have run: "finished ?tk' = None"
    using assms(3) by simp
  have fin: "trace (finish ?s3 a (VStr ''cancelled'') VNull) =
      trace s @ [AbortCalled ?c, ListenerCalled a (VStr ''cancelled'') VNull]"
    by (simp add: finish_running [OF at run] run_listener_def nextTick_def record_event_def Let_def)
  have c_done: "outcome ?s3 ?c = Some (VStr ''cancelled'', VNull)"
    by (simp add: outcome_def nth_opt_append nth_opt_Cons)
  have one: "outcome (cancel ?s3 a) ?c = Some (VStr ''cancelled'', VNull)"
    by (rule outcome_cancel_mono [OF c_done])
  have two: "outcome (cancel ?s3 a) a = Some (VStr ''cancelled'', VNull)"
    by (rule outcome_cancel_running [OF at run])
  have three: "abort tk = None \<longrightarrow> trace (cancel ?s3 a) =
      trace s @ [AbortCalled ?c, ListenerCalled a (VStr ''cancelled'') VNull]"
    using fin by (simp add: cancel_running [OF at run])
  have four: "abort tk = Some UserAbort \<longrightarrow> trace (cancel ?s3 a) =
      trace s @ [AbortCalled ?c, ListenerCalled a (VStr ''cancelled'') VNull, AbortCalled a]"
    using fin by (simp add: cancel_running [OF at run])
  have five: "abort tk \<noteq> None \<longrightarrow> (\<exists>evs. trace (cancel ?s3 a) =
      trace s @ [AbortCalled ?c, ListenerCalled a (VStr ''cancelled'') VNull, AbortCalled a] @ evs)"
  proof
    assume "abort tk \<noteq> None"
    then obtain ab where "abort ?tk' = Some ab"
      by auto
    from trace_cancel_abort [OF at run this] fin
    show "\<exists>evs. trace (cancel ?s3 a) =
      trace s @ [AbortCalled ?c, ListenerCalled a (VStr ''cancelled'') VNull, AbortCalled a] @ evs"
      by auto
  qed
  from one two three four five
  have first: "let (s1, r) = thenDo s a F G;
              c = length (tasks s);
              s2 = cancel s1 c
          in r = Inr c
             \<and> outcome s2 c = Some (VStr ''cancelled'', VNull)
             \<and> outcome s2 a = Some (VStr ''cancelled'', VNull)
             \<and> (abort tk = None \<longrightarrow>
                  trace s2 = trace s @
                    [AbortCalled c, ListenerCalled a (VStr ''cancelled'') VNull])
             \<and> (abort tk = Some UserAbort \<longrightarrow>
                  trace s2 = trace s @
                    [AbortCalled c, ListenerCalled a (VStr ''cancelled'') VNull, AbortCalled a])
             \<and> (abort tk \<noteq> None \<longrightarrow>
                  (\<exists>evs. trace s2 = trace s @
                    [AbortCalled c, ListenerCalled a (VStr ''cancelled'') VNull, AbortCalled a]
                    @ evs))"
    by (simp add: then_do forward)
  have second: "let (s1, r) = thenDo s a (Some (UserFactory f)) G;
               c = length (tasks s);
               s2 = resolve s1 a v;
               (s3, x) = run_tick s2;
               sub = Suc (length (tasks s));
               s4 = cancel s3 c
           in outcome s3 a = Some (VNull, v) \<and> outcome s3 sub = None \<and> outcome s3 c = None
              \<and> current_of s3 (length (envs s)) = Some sub
              \<and> outcome s4 c = Some (VStr ''cancelled'', VNull)
              \<and> outcome s4 sub = Some (VStr ''cancelled'', VNull)
              \<and> outcome s4 a = Some (VNull, v)
              \<and> trace s4 = trace s3 @
                   [AbortCalled c, ListenerCalled sub (VStr ''cancelled'') VNull, AbortCalled sub]"
    if "queue s = []" "f v = FTask (Start \<lparr>calls = [], ending = Return (Some UserAbort)\<rparr>)"
    using lt assms that
    by (simp add: sym_defs loosely_null_def sync_outcome_def returned_abort_def cancel.simps)
  from first second show ?thesis
    by blast
qed

text \<open>The task \<open>a\<close> is task 0, with an abort function; the composite task is task 1 and
  the sub-task of the second scenario is task 2.\<close>

theorem cancel_is_forwarded_witness:
  "outcome (cancel (fst (thenDo pending_task 0 None None)) 1) 1 = Some (VStr ''cancelled'', VNull)
   \<and> trace (cancel (fst (thenDo pending_task 0 None None)) 1)
       = [AbortCalled 1, ListenerCalled 0 (VStr ''cancelled'') VNull, AbortCalled 0]
   \<and> outcome (fst (run_tick (resolve (fst (thenDo pending_task 0 (Some (UserFactory slow_task)) None))
        0 (VNum 5)))) 2 = None
   \<and> trace (cancel (fst (run_tick (resolve (fst (thenDo pending_task 0
        (Some (UserFactory slow_task)) None)) 0 (VNum 5)))) 1)
       = [ListenerCalled 0 VNull (VNum 5), FactoryCalled 0 OnResolve (VNum 5),
          AbortCalled 1, ListenerCalled 2 (VStr ''cancelled'') VNull, AbortCalled 2]"
proof -
  let ?tk = "\<lparr>finished = None, onFinish = None, abort = Some UserAbort\<rparr>"
  have at: "nth_opt (tasks pending_task) 0 = Some ?tk"
    by (simp add: pending_task_closed nth_opt_Cons)
  have lis: "onFinish ?tk = None" and run: "finished ?tk = None"
    by simp_all
  have pre: "queue pending_task = [] \<and>
      slow_task (VNum 5) = FTask (Start \<lparr>calls = [], ending = Return (Some UserAbort)\<rparr>)"
    by (simp add: pending_task_closed slow_task_def)
  have facts: "length (tasks pending_task) = 1" "trace pending_task = []"
    "abort ?tk = Some UserAbort"
    by (simp_all add: pending_task_closed)
  have before: "trace (fst (run_tick (resolve (fst (thenDo pending_task 0
        (Some (UserFactory slow_task)) None)) 0 (VNum 5))))
      = [ListenerCalled 0 VNull (VNum 5), FactoryCalled 0 OnResolve (VNum 5)]"
    by (simp add: pending_task_closed sym_defs loosely_null_def slow_task_def
        sync_outcome_def returned_abort_def)
  note inst = cancel_is_forwarded [OF at lis run, where F = None and G = None and f = slow_task
      and v = "VNum 5"]
  from inst [THEN conjunct1] inst [THEN conjunct2, THEN mp, OF pre]
  show ?thesis
    by (simp add: Let_def split_beta facts before numeral_2_eq_2)
qed

text \<open>
  The forwarding does not depend on the moment of the call. In any state, let \<open>c\<close> be a
  running task whose abort function is \<open>cancelCompositeTask\<close> of the environment \<open>e\<close>, let
  the listener of \<open>c\<close> not be the one of that same environment, and let the current task
  \<open>t\<close> of \<open>e\<close> be a running task other than \<open>c\<close>. Then \<open>c.cancel()\<close> finishes \<open>c\<close> and \<open>t\<close> with the
  sentinel and, when \<open>t\<close> has an abort function, calls it after that of \<open>c\<close>.
\<close>

lemma cancel_forwards_to_current_task:
  assumes comp: "nth_opt (tasks s) c = Some tkc" "finished tkc = None"
      "abort tkc = Some (CancelCompositeTask e)" "onFinish tkc \<noteq> Some (ComposeListener e)"
    and env: "nth_opt (envs s) e = Some env" "currentTask env = Some t"
    and cur: "nth_opt (tasks s) t = Some tk" "finished tk = None" "t \<noteq> c"
  shows "outcome (cancel s c) c = Some (VStr ''cancelled'', VNull)
       \<and> outcome (cancel s c) t = Some (VStr ''cancelled'', VNull)
       \<and> (abort tk \<noteq> None \<longrightarrow>
            (\<exists>evs. trace (cancel s c) =
               trace (finish s c (VStr ''cancelled'') VNull) @ AbortCalled c #
               (case onFinish tk of None \<Rightarrow> []
                | Some l \<Rightarrow> [ListenerCalled t (VStr ''cancelled'') VNull]) @
               AbortCalled t # evs))"
proof -
  let ?s1 = "finish s c (VStr ''cancelled'') VNull"
  let ?s3 = "mark_cancelled (record_event ?s1 (AbortCalled c)) e"
  from env(1) have e: "e < length (envs s)"
    by (rule nth_opt_lt)
  from comp(1) have c: "c < length (tasks s)"
    by (rule nth_opt_lt)
  have envs1: "nth_opt (envs ?s1) e = Some env"
    using comp(4) env(1)
    by (cases "onFinish tkc")
      (auto simp: finish_running [OF comp(1,2)] run_listener_def nextTick_def record_event_def
        Let_def nth_opt_update split: listener.splits option.splits)
  then have cur3: "current_of ?s3 e = Some t"
    using env(2) e
    by (simp add: current_of_def mark_cancelled_def nth_opt_update)
  have forward: "cancel s c = cancel ?s3 t"
    using comp(3) cur3 by (simp add: cancel_running [OF comp(1,2)] Let_def)
  have tasks3: "tasks ?s3 = (tasks s)[c := tkc\<lparr>finished := Some (VStr ''cancelled'', VNull)\<rparr>]"
    by (simp add: mark_cancelled_def tasks_finish comp)
  have at_t: "nth_opt (tasks ?s3) t = Some tk"
    using cur(1,3) by (simp add: tasks3 nth_opt_update)
  have "outcome ?s3 c = Some (VStr ''cancelled'', VNull)"
    using c by (simp add: outcome_def tasks3 nth_opt_update)
  then have one: "outcome (cancel ?s3 t) c = Some (VStr ''cancelled'', VNull)"
    by (rule outcome_cancel_mono)
  have two: "outcome (cancel ?s3 t) t = Some (VStr ''cancelled'', VNull)"
    by (rule outcome_cancel_running [OF at_t cur(2)])
  have fin: "trace (finish ?s3 t (VStr ''cancelled'') VNull) =
      trace ?s1 @ AbortCalled c #
        (case onFinish tk of None \<Rightarrow> []
         | Some l \<Rightarrow> [ListenerCalled t (VStr ''cancelled'') VNull])"
    by (simp add: trace_finish at_t cur(2) split: option.splits)
  have three: "\<exists>evs. trace (cancel ?s3 t) =
      trace ?s1 @ AbortCalled c #
        (case onFinish tk of None \<Rightarrow> []
         | Some l \<Rightarrow> [ListenerCalled t (VStr ''cancelled'') VNull]) @ AbortCalled t # evs"
    if "abort tk \<noteq> None"
  proof -
    from that obtain ab where "abort tk = Some ab"
      by auto
    from trace_cancel_abort [OF at_t cur(2) this] fin show ?thesis
      by auto
  qed
  from one two three show ?thesis
    by (simp add: forward)
qed

section \<open>The outcome is written once\<close>

text \<open>
  Claim C3. For a task that is still running, the first call of one of its completion
  callbacks records the pair that the call stands for (\<open>(null, v)\<close> for \<open>resolve(v)\<close>,
  \<open>(e, null)\<close> for \<open>reject(e)\<close>), and any further calls of \<open>resolve\<close> and \<open>reject\<close>, in any
  number and order, leave the state, and so the recorded outcome, as the first call
  left it. For a task that has finished, all such calls leave the state as it is.
\<close>

theorem outcome_set_at_most_once:
  assumes "nth_opt (tasks s) t = Some tk"
  shows "(finished tk = None \<longrightarrow>
            outcome (do_call t s c) t = Some (completion_pair c)
          \<and> foldl (do_call t) (do_call t s c) cs = do_call t s c
          \<and> outcome (foldl (do_call t) s (c # cs)) t = Some (completion_pair c))
       \<and> (finished tk \<noteq> None \<longrightarrow> foldl (do_call t) s cs = s)"
proof (cases "finished tk")
  case None
  have first: "outcome (do_call t s c) t = Some (completion_pair c)"
    by (rule outcome_do_call_running [OF assms None])
  then have later: "foldl (do_call t) (do_call t s c) cs = do_call t s c"
    by (simp add: foldl_do_call_noop)
  from first later None show ?thesis by simp
next
  case (Some p)
  with assms have "outcome s t \<noteq> None"
    by (simp add: outcome_def)
  then have "foldl (do_call t) s cs = s"
    by (rule foldl_do_call_noop)
  with Some show ?thesis by simp
qed

text \<open>A running task is resolved with 1, then rejected with "E", then resolved with 2:
  the outcome stays \<open>(null, 1)\<close>. A task made by \<open>Task.withValue(5)\<close> is rejected with "E"
  and resolved with 2: nothing changes.\<close>

theorem outcome_set_at_most_once_witness:
  "outcome pending_task 0 = None
   \<and> outcome (do_call 0 pending_task (CallResolve (VNum 1))) 0 = Some (VNull, VNum 1)
   \<and> outcome (foldl (do_call 0) pending_task
        [CallResolve (VNum 1), CallReject (VStr ''E''), CallResolve (VNum 2)]) 0
      = Some (VNull, VNum 1)
   \<and> foldl (do_call 0) (fst (Task_withValue empty_state (VNum 5)))
        [CallReject (VStr ''E''), CallResolve (VNum 2)] = fst (Task_withValue empty_state (VNum 5))"
proof -
  let ?tk = "\<lparr>finished = None, onFinish = None, abort = Some UserAbort\<rparr>"
  let ?over = "\<lparr>finished = Some (VNull, VNum 5), onFinish = None, abort = None\<rparr>"
  have at: "nth_opt (tasks pending_task) 0 = Some ?tk"
    by (simp add: pending_task_closed nth_opt_Cons)
  have run: "finished ?tk = None"
    by simp
  have at': "nth_opt (tasks (fst (Task_withValue empty_state (VNum 5)))) 0 = Some ?over"
    by (simp add: Task_withValue_closed empty_state_def nth_opt_Cons)
  have over: "finished ?over \<noteq> None"
    by simp
  note one = outcome_set_at_most_once [OF at, THEN conjunct1, THEN mp, OF run,
      of "CallResolve (VNum 1)" "[CallReject (VStr ''E''), CallResolve (VNum 2)]"]
  note two = outcome_set_at_most_once [OF at', THEN conjunct2, THEN mp, OF over,
      of "[CallReject (VStr ''E''), CallResolve (VNum 2)]"]
  have "outcome pending_task 0 = None"
    by (simp add: outcome_def at)
  with one two show ?thesis
    by (simp add: completion_pair_def)
qed

section \<open>cancel on a running and on a finished task\<close>

text \<open>
  Claim C4. \<open>cancel()\<close> on a running task records the outcome \<open>('cancelled', null)\<close>. If
  the starter returned no abort function, that is all it does; if it returned one, the
  abort function is called after the outcome is recorded (the trace of the call is the
  trace of \<open>finish\<close> followed by the call of the task's abort function). On a finished
  task \<open>cancel()\<close> returns the state unchanged: no abort call, the same outcome.
\<close>

theorem cancel_running_then_abort:
  assumes "nth_opt (tasks s) t = Some tk"
  shows "(finished tk = None \<longrightarrow>
            outcome (cancel s t) t = Some (VStr ''cancelled'', VNull)
          \<and> (abort tk = None \<longrightarrow> cancel s t = finish s t (VStr ''cancelled'') VNull)
          \<and> (abort tk = Some UserAbort \<longrightarrow>
                cancel s t = record_event (finish s t (VStr ''cancelled'') VNull) (AbortCalled t))
          \<and> (abort tk \<noteq> None \<longrightarrow>
                (\<exists>evs. trace (cancel s t) =
                   trace (finish s t (VStr ''cancelled'') VNull) @ AbortCalled t # evs)))
       \<and> (finished tk \<noteq> None \<longrightarrow> cancel s t = s)"
proof (cases "finished tk")
  case None
  have "outcome (cancel s t) t = Some (VStr ''cancelled'', VNull)"
    by (rule outcome_cancel_running [OF assms None])
  moreover have "abort tk = None \<longrightarrow> cancel s t = finish s t (VStr ''cancelled'') VNull"
    by (simp add: cancel_running [OF assms None])
  moreover have "abort tk = Some UserAbort \<longrightarrow>
      cancel s t = record_event (finish s t (VStr ''cancelled'') VNull) (AbortCalled t)"
    by (simp add: cancel_running [OF assms None])
  moreover have "abort tk \<noteq> None \<longrightarrow>
      (\<exists>evs. trace (cancel s t) = trace (finish s t (VStr ''cancelled'') VNull) @ AbortCalled t # evs)"
    using trace_cancel_abort [OF assms None] by auto
  ultimately show ?thesis
    using None by simp
next
  case (Some p)
  with assms have "outcome s t \<noteq> None"
    by (simp add: outcome_def)
  then have "cancel s t = s"
    by (rule cancel_noop)
  with Some show ?thesis by simp
qed

text \<open>A running task with an abort function is cancelled: the outcome is the sentinel
  and the abort function has been called once. A running task without abort function
  is cancelled: the outcome is the sentinel and nothing was called. A task made by
  \<open>Task.withValue(5)\<close> is cancelled: nothing changes.\<close>

theorem cancel_running_then_abort_witness:
  "outcome (cancel pending_task 0) 0 = Some (VStr ''cancelled'', VNull)
   \<and> trace (cancel pending_task 0) = [AbortCalled 0]
   \<and> outcome (cancel bare_task 0) 0 = Some (VStr ''cancelled'', VNull)
   \<and> trace (cancel bare_task 0) = []
   \<and> outcome (fst (Task_withValue empty_state (VNum 5))) 0 = Some (VNull, VNum 5)
   \<and> cancel (fst (Task_withValue empty_state (VNum 5))) 0 = fst (Task_withValue empty_state (VNum 5))"
proof -
  let ?tk = "\<lparr>finished = None, onFinish = None, abort = Some UserAbort\<rparr>"
  let ?bare = "\<lparr>finished = None, onFinish = None, abort = None\<rparr>"
  let ?done = "\<lparr>finished = Some (VNull, VNum 5), onFinish = None, abort = None\<rparr>"
  have at: "nth_opt (tasks pending_task) 0 = Some ?tk"
    by (simp add: pending_task_closed nth_opt_Cons)
  have run: "finished ?tk = None" and ab: "abort ?tk = Some UserAbort"
    by simp_all
  have fin: "finish pending_task 0 (VStr ''cancelled'') VNull =
      \<lparr>tasks = [\<lparr>finished = Some (VStr ''cancelled'', VNull), onFinish = None,
                 abort = Some UserAbort\<rparr>], envs = [], queue = [], trace = []\<rparr>"
    by (simp add: pending_task_closed run_defs)
  note running_case = cancel_running_then_abort [OF at, THEN conjunct1, THEN mp, OF run]
  note one = running_case [THEN conjunct1]
  note two = running_case [THEN conjunct2, THEN conjunct2, THEN conjunct1, THEN mp, OF ab]
  have at_b: "nth_opt (tasks bare_task) 0 = Some ?bare"
    by (simp add: bare_task_closed nth_opt_Cons)
  have run_b: "finished ?bare = None" and ab_b: "abort ?bare = None"
    by simp_all
  have fin_b: "finish bare_task 0 (VStr ''cancelled'') VNull =
      \<lparr>tasks = [\<lparr>finished = Some (VStr ''cancelled'', VNull), onFinish = None,
                 abort = None\<rparr>], envs = [], queue = [], trace = []\<rparr>"
    by (simp add: bare_task_closed run_defs)
  note bare_case = cancel_running_then_abort [OF at_b, THEN conjunct1, THEN mp, OF run_b]
  note one_b = bare_case [THEN conjunct1]
  note two_b = bare_case [THEN conjunct2, THEN conjunct1, THEN mp, OF ab_b]
  have made: "fst (Task_withValue empty_state (VNum 5)) =
      \<lparr>tasks = [?done], envs = [], queue = [], trace = []\<rparr>"
    by (simp add: Task_withValue_closed empty_state_def)
  have at': "nth_opt (tasks (fst (Task_withValue empty_state (VNum 5)))) 0 = Some ?done"
    by (simp add: made nth_opt_Cons)
  have over: "finished ?done \<noteq> None"
    by simp
  note three = cancel_running_then_abort [OF at', THEN conjunct2, THEN mp, OF over]
  have four: "outcome (fst (Task_withValue empty_state (VNum 5))) 0 = Some (VNull, VNum 5)"
    by (simp add: outcome_def at')
  have "trace (cancel pending_task 0) = [AbortCalled 0]"
    by (simp add: two fin record_event_def)
  moreover have "trace (cancel bare_task 0) = []"
    by (simp add: two_b fin_b)
  ultimately show ?thesis
    using one one_b three four by (intro conjI)
qed

section \<open>The continuation runs on a later turn\<close>

text \<open>
  Claim C5. No operation other than a turn of the deferred queue calls a continuation
  factory: \<open>thenDo\<close>, \<open>finally\<close>, the completion callbacks, \<open>cancel\<close> and \<open>Task.start\<close> leave
  the list of factory calls as it was. In particular, when a task is resolved by its
  starter during \<open>Task.start\<close> and \<open>thenDo\<close> is called on it, \<open>thenDo\<close> returns with the
  continuation only placed on the queue, and the factory is called when that entry of
  the queue runs.
\<close>

theorem continuation_is_deferred:
  "factory_calls (fst (thenDo s t F G)) = factory_calls s
   \<and> factory_calls (fst (finally_do s t c)) = factory_calls s
   \<and> factory_calls (resolve s t v) = factory_calls s
   \<and> factory_calls (reject s t err) = factory_calls s
   \<and> factory_calls (cancel s t) = factory_calls s
   \<and> factory_calls (fst (Task_start s st)) = factory_calls s
   \<and> (let (s1, a) = Task_start s \<lparr>calls = CallResolve v # cs, ending = en\<rparr>;
            (s2, r) = thenDo s1 a (Some k) G
        in a = length (tasks s) \<and> outcome s1 a = Some (VNull, v)
           \<and> r = Inr (Suc (length (tasks s)))
           \<and> factory_calls s2 = factory_calls s
           \<and> queue s2 = queue s @ [ComposeTick (length (envs s)) VNull v]
           \<and> (queue s = [] \<longrightarrow>
                factory_calls (fst (run_tick s2)) =
                  factory_calls s @ [FactoryCalled (length (envs s)) OnResolve v]))"
proof -
  have "let (s1, a) = Task_start s \<lparr>calls = CallResolve v # cs, ending = en\<rparr>;
            (s2, r) = thenDo s1 a (Some k) G
        in a = length (tasks s) \<and> outcome s1 a = Some (VNull, v)
           \<and> r = Inr (Suc (length (tasks s)))
           \<and> factory_calls s2 = factory_calls s
           \<and> queue s2 = queue s @ [ComposeTick (length (envs s)) VNull v]
           \<and> (queue s = [] \<longrightarrow>
                factory_calls (fst (run_tick s2)) =
                  factory_calls s @ [FactoryCalled (length (envs s)) OnResolve v])"
    by (simp add: pre_tick_defs split_beta factory_calls_compose_tick sync_outcome_def
        completion_pair_def loosely_null_def)
      (simp add: factory_calls_def is_factory_call_def)
  then show ?thesis
    by simp
qed

text \<open>\<open>Task.withValue(5).thenDo(f)\<close>: when \<open>thenDo\<close> has returned \<open>f\<close> has not been called
  and one deferred function is queued; the next turn calls \<open>f(5)\<close>.\<close>

theorem continuation_is_deferred_witness:
  "factory_calls (fst (thenDo (fst (Task_withValue empty_state (VNum 5))) 0
      (Some (UserFactory returns_nothing)) None)) = []
   \<and> queue (fst (thenDo (fst (Task_withValue empty_state (VNum 5))) 0
      (Some (UserFactory returns_nothing)) None)) = [ComposeTick 0 VNull (VNum 5)]
   \<and> factory_calls (fst (run_tick (fst (thenDo (fst (Task_withValue empty_state (VNum 5))) 0
      (Some (UserFactory returns_nothing)) None)))) = [FactoryCalled 0 OnResolve (VNum 5)]"
proof -
  have e: "length (tasks empty_state) = 0" "length (envs empty_state) = 0"
    "queue empty_state = []" "factory_calls empty_state = []"
    by (simp_all add: empty_state_def)
  have sn: "snd (Task_start empty_state \<lparr>calls = [CallResolve (VNum 5)], ending = Return None\<rparr>) = 0"
    by (simp add: Task_start_closed empty_state_def)
  have w: "Task_withValue empty_state (VNum 5) =
      Task_start empty_state \<lparr>calls = CallResolve (VNum 5) # [], ending = Return None\<rparr>"
    by (simp add: Task_withValue_def)
  from continuation_is_deferred [where s = empty_state and t = 0 and G = None and v = "VNum 5"
      and cs = "[]" and en = "Return None" and k = "UserFactory returns_nothing"]
  show ?thesis
    by (simp add: Let_def split_beta e w sn)
qed

section \<open>Values thrown by a starter or by a factory\<close>

text \<open>
  Claim C6. For every starter that throws \<open>err\<close>, \<open>Task.start\<close> returns what it returns for
  the starter that makes the same calls and returns nothing, followed by a call of the
  task's \<open>reject\<close> callback with \<open>err\<close>. For a starter that throws \<open>err\<close> before it has called
  a completion callback the task so has the outcome \<open>(err, null)\<close>, and a listener
  registered by \<open>thenDo\<close> or \<open>finally\<close> is called with \<open>(err, null)\<close>. A factory that throws
  \<open>err\<close>, be it \<open>onResolve\<close> after a success of the first task or \<open>onReject\<close> after a
  failure: the turn of the queue in which it is called ends normally, and the composite
  task is rejected with \<open>err\<close>.
\<close>

theorem thrown_value_becomes_rejection:
  "Task_start s \<lparr>calls = cs, ending = Throw err\<rparr> =
     (reject (fst (Task_start s \<lparr>calls = cs, ending = Return None\<rparr>)) (length (tasks s)) err,
      length (tasks s))
   \<and> (let (s1, t) = Task_start s \<lparr>calls = [], ending = Throw err\<rparr>
    in t = length (tasks s) \<and> outcome s1 t = Some (err, VNull)
       \<and> (let (s2, r) = thenDo s1 t F G
           in r = Inr (Suc (length (tasks s)))
              \<and> trace s2 = trace s @ [ListenerCalled t err VNull]
              \<and> queue s2 = queue s @ [ComposeTick (length (envs s)) err VNull])
       \<and> (let (s2, r) = finally_do s1 t c
           in r = Inr t \<and> trace s2 = trace s @ [ListenerCalled t err VNull]))
   \<and> (\<forall>a tk. nth_opt (tasks s) a = Some tk \<and> onFinish tk = None \<and> finished tk = None
          \<and> queue s = [] \<longrightarrow>
        (f v = FThrow err \<longrightarrow>
           (let (s1, r) = thenDo s a (Some (UserFactory f)) G;
                s2 = resolve s1 a v;
                (s3, x) = run_tick s2
            in x = Inr () \<and> outcome s3 (length (tasks s)) = Some (err, VNull)))
      \<and> (\<not> loosely_null e \<and> e \<noteq> VStr ''cancelled'' \<and> g e = FThrow err \<longrightarrow>
           (let (s1, r) = thenDo s a F (Some (UserFactory g));
                s2 = reject s1 a e;
                (s3, x) = run_tick s2
            in x = Inr () \<and> outcome s3 (length (tasks s)) = Some (err, VNull))))"
proof -
  have caught: "Task_start s \<lparr>calls = cs, ending = Throw err\<rparr> =
     (reject (fst (Task_start s \<lparr>calls = cs, ending = Return None\<rparr>)) (length (tasks s)) err,
      length (tasks s))"
    by (cases cs)
      (simp_all add: Task_start_closed sync_outcome_def returned_abort_def reject_def finish_def
        nth_opt_append nth_opt_Cons list_update_snoc)
  have starter: "let (s1, t) = Task_start s \<lparr>calls = [], ending = Throw err\<rparr>
    in t = length (tasks s) \<and> outcome s1 t = Some (err, VNull)
       \<and> (let (s2, r) = thenDo s1 t F G
           in r = Inr (Suc (length (tasks s)))
              \<and> trace s2 = trace s @ [ListenerCalled t err VNull]
              \<and> queue s2 = queue s @ [ComposeTick (length (envs s)) err VNull])
       \<and> (let (s2, r) = finally_do s1 t c
           in r = Inr t \<and> trace s2 = trace s @ [ListenerCalled t err VNull])"
    by (simp add: pre_tick_defs finally_do_def sync_outcome_def)
  have factory: "(f v = FThrow err \<longrightarrow>
           (let (s1, r) = thenDo s a (Some (UserFactory f)) G;
                s2 = resolve s1 a v;
                (s3, x) = run_tick s2
            in x = Inr () \<and> outcome s3 (length (tasks s)) = Some (err, VNull)))
      \<and> (\<not> loosely_null e \<and> e \<noteq> VStr ''cancelled'' \<and> g e = FThrow err \<longrightarrow>
           (let (s1, r) = thenDo s a F (Some (UserFactory g));
                s2 = reject s1 a e;
                (s3, x) = run_tick s2
            in x = Inr () \<and> outcome s3 (length (tasks s)) = Some (err, VNull)))"
    if "nth_opt (tasks s) a = Some tk" "onFinish tk = None" "finished tk = None" "queue s = []"
    for a tk
  proof -
    from that(1) have "a < length (tasks s)"
      by (rule nth_opt_lt)
    then show ?thesis
      using that by (simp add: sym_defs loosely_null_def)
  qed
  from caught starter factory show ?thesis
    by blast
qed

text \<open>A starter throws "boom": the task has the outcome \<open>("boom", null)\<close> and the
  listener of \<open>thenDo\<close> is called with it. A factory throws "boom", as \<open>onResolve\<close> after the
  first task was resolved with 1 and as \<open>onReject\<close> after it was rejected with "E": the
  turn ends normally and the composite task has the outcome \<open>("boom", null)\<close>.\<close>

theorem thrown_value_becomes_rejection_witness:
  "outcome (fst (Task_start empty_state \<lparr>calls = [], ending = Throw (VStr ''boom'')\<rparr>)) 0
     = Some (VStr ''boom'', VNull)
   \<and> trace (fst (thenDo (fst (Task_start empty_state \<lparr>calls = [], ending = Throw (VStr ''boom'')\<rparr>))
        0 None None)) = [ListenerCalled 0 (VStr ''boom'') VNull]
   \<and> snd (run_tick (resolve (fst (thenDo pending_task 0 (Some (UserFactory throws_boom)) None))
        0 (VNum 1))) = Inr ()
   \<and> outcome (fst (run_tick (resolve (fst (thenDo pending_task 0 (Some (UserFactory throws_boom)) None))
        0 (VNum 1)))) 1 = Some (VStr ''boom'', VNull)
   \<and> snd (run_tick (reject (fst (thenDo pending_task 0 None (Some (UserFactory throws_boom))))
        0 (VStr ''E''))) = Inr ()
   \<and> outcome (fst (run_tick (reject (fst (thenDo pending_task 0 None (Some (UserFactory throws_boom))))
        0 (VStr ''E'')))) 1 = Some (VStr ''boom'', VNull)"
proof -
  let ?tk = "\<lparr>finished = None, onFinish = None, abort = Some UserAbort\<rparr>"
  have e: "length (tasks empty_state) = 0" "length (envs empty_state) = 0"
    "trace empty_state = []" "queue empty_state = []"
    by (simp_all add: empty_state_def)
  have sn: "snd (Task_start empty_state st) = 0" for st
    by (simp add: Task_start_closed empty_state_def)
  have at: "nth_opt (tasks pending_task) 0 = Some ?tk \<and> onFinish ?tk = None \<and> finished ?tk = None
      \<and> queue pending_task = []"
    by (simp add: pending_task_closed nth_opt_Cons)
  have len: "length (tasks pending_task) = 1"
    by (simp add: pending_task_closed)
  have th: "throws_boom (VNum 1) = FThrow (VStr ''boom'')"
    by (simp add: throws_boom_def)
  have th': "\<not> loosely_null (VStr ''E'') \<and> VStr ''E'' \<noteq> VStr ''cancelled''
      \<and> throws_boom (VStr ''E'') = FThrow (VStr ''boom'')"
    by (simp add: throws_boom_def loosely_null_def)
  note starter = thrown_value_becomes_rejection [where s = empty_state and err = "VStr ''boom''"
      and F = None and G = None, THEN conjunct2, THEN conjunct1]
  note factory = thrown_value_becomes_rejection [where s = pending_task and G = None
      and f = throws_boom and v = "VNum 1" and err = "VStr ''boom''",
      THEN conjunct2, THEN conjunct2, THEN spec, THEN spec, THEN mp, OF at,
      THEN conjunct1, THEN mp, OF th]
  note factory' = thrown_value_becomes_rejection [where s = pending_task and F = None
      and g = throws_boom and e = "VStr ''E''" and err = "VStr ''boom''",
      THEN conjunct2, THEN conjunct2, THEN spec, THEN spec, THEN mp, OF at,
      THEN conjunct2, THEN mp, OF th']
  from starter factory factory' show ?thesis
    by (simp add: Let_def split_beta e sn len)
qed

section \<open>A failure without onReject\<close>

text \<open>
  Claim C7. Let \<open>thenDo\<close> be called on a task with an \<open>onResolve\<close> function and no
  \<open>onReject\<close> function, with nothing else pending on the deferred queue. If the task
  fails with an error \<open>err\<close> (one that is not null or undefined), after the call of
  \<open>thenDo\<close> or before it, then the next turn of the queue rejects the composite task
  with \<open>err\<close>, and no factory has been called.
\<close>

theorem failure_without_onReject:
  assumes "nth_opt (tasks s) a = Some tk" and "onFinish tk = None" and "queue s = []"
    and "\<not> loosely_null err"
  shows "(finished tk = None \<longrightarrow>
           (let (s1, r) = thenDo s a (Some k) None;
                s2 = reject s1 a err;
                (s3, x) = run_tick s2
            in r = Inr (length (tasks s)) \<and> x = Inr ()
               \<and> outcome s3 (length (tasks s)) = Some (err, VNull)
               \<and> factory_calls s3 = factory_calls s))
       \<and> (finished tk = Some (err, result) \<longrightarrow>
           (let (s1, r) = thenDo s a (Some k) None;
                (s3, x) = run_tick s1
            in r = Inr (length (tasks s)) \<and> x = Inr ()
               \<and> outcome s3 (length (tasks s)) = Some (err, VNull)
               \<and> factory_calls s3 = factory_calls s))"
proof -
  from assms(1) have lt: "a < length (tasks s)"
    by (rule nth_opt_lt)
  show ?thesis
    using assms lt by (simp add: sym_defs factory_calls_def is_factory_call_def)
qed

text \<open>A running task gets \<open>thenDo(f)\<close> and is then rejected with "E": after one turn the
  composite task has the outcome \<open>("E", null)\<close> and \<open>f\<close> was not called. The same holds when
  \<open>thenDo(f)\<close> is called on a task that its starter has rejected with "E".\<close>

theorem failure_without_onReject_witness:
  "outcome (fst (run_tick (reject (fst (thenDo pending_task 0 (Some (UserFactory returns_nothing)) None))
      0 (VStr ''E'')))) 1 = Some (VStr ''E'', VNull)
   \<and> factory_calls (fst (run_tick (reject (fst (thenDo pending_task 0
        (Some (UserFactory returns_nothing)) None)) 0 (VStr ''E'')))) = []
   \<and> outcome (fst (run_tick (fst (thenDo failed_task 0 (Some (UserFactory returns_nothing)) None))))
        1 = Some (VStr ''E'', VNull)
   \<and> factory_calls (fst (run_tick (fst (thenDo failed_task 0
        (Some (UserFactory returns_nothing)) None)))) = []"
proof -
  let ?tk = "\<lparr>finished = None, onFinish = None, abort = Some UserAbort\<rparr>"
  let ?failed = "\<lparr>finished = Some (VStr ''E'', VNull), onFinish = None, abort = None\<rparr>"
  have at: "nth_opt (tasks pending_task) 0 = Some ?tk"
    by (simp add: pending_task_closed nth_opt_Cons)
  have lis: "onFinish ?tk = None" and run: "finished ?tk = None"
    by simp_all
  have q: "queue pending_task = []" and len: "length (tasks pending_task) = 1"
    and fc: "factory_calls pending_task = []"
    by (simp_all add: pending_task_closed)
  have at': "nth_opt (tasks failed_task) 0 = Some ?failed"
    by (simp add: failed_task_closed nth_opt_Cons)
  have lis': "onFinish ?failed = None" and over: "finished ?failed = Some (VStr ''E'', VNull)"
    by simp_all
  have q': "queue failed_task = []" and len': "length (tasks failed_task) = 1"
    and fc': "factory_calls failed_task = []"
    by (simp_all add: failed_task_closed)
  have ne: "\<not> loosely_null (VStr ''E'')"
    by (simp add: loosely_null_def)
  from failure_without_onReject [OF at lis q ne, THEN conjunct1, THEN mp, OF run,
      of "UserFactory returns_nothing"]
    failure_without_onReject [OF at' lis' q' ne, THEN conjunct2, THEN mp, OF over,
      of "UserFactory returns_nothing"]
  show ?thesis
    by (simp add: Let_def split_beta len fc len' fc')
qed

section \<open>A second listener\<close>

text \<open>
  Claim C8. On a task that has a listener, \<open>thenDo\<close> and \<open>finally\<close> throw the error
  "thenDo/finally called more than once". The task is as before (same listener, same
  outcome) and the listener has not been called by the failed registration. If the
  task is still running, the call that finishes it calls the listener once, with the
  outcome it records, and every later completion call changes nothing; if the task had
  finished, no later completion call changes anything, so the listener is not called
  again.
\<close>

theorem second_listener_fails_fast:
  assumes "nth_opt (tasks s) t = Some tk" and "onFinish tk = Some l"
  shows "snd (thenDo s t F G) = Inl (VError ''thenDo/finally called more than once'')
       \<and> finally_do s t c = (s, Inl (VError ''thenDo/finally called more than once''))
       \<and> nth_opt (tasks (fst (thenDo s t F G))) t = Some tk
       \<and> trace (fst (thenDo s t F G)) = trace s
       \<and> queue (fst (thenDo s t F G)) = queue s
       \<and> (finished tk = None \<longrightarrow>
            (\<forall>err result err' result'.
               trace (finish (fst (thenDo s t F G)) t err result)
                 = trace s @ [ListenerCalled t err result]
             \<and> outcome (finish (fst (thenDo s t F G)) t err result) t = Some (err, result)
             \<and> finish (finish (fst (thenDo s t F G)) t err result) t err' result'
                 = finish (fst (thenDo s t F G)) t err result))
       \<and> (finished tk \<noteq> None \<longrightarrow>
            (\<forall>err result. finish (fst (thenDo s t F G)) t err result = fst (thenDo s t F G)))"
proof -
  let ?s1 = "\<lparr>tasks = tasks s @ [fresh_composite s], envs = envs s @ [fresh_env s t F G],
       queue = queue s, trace = trace s\<rparr>"
  have then_do: "thenDo s t F G = (?s1, Inl (VError ''thenDo/finally called more than once''))"
    by (rule thenDo_second [OF assms])
  have fin: "finally_do s t c = (s, Inl (VError ''thenDo/finally called more than once''))"
    by (simp add: finally_do_def setListener_second [OF assms])
  from assms(1) have lt: "t < length (tasks s)"
    by (rule nth_opt_lt)
  with assms(1) have at: "nth_opt (tasks ?s1) t = Some tk"
    by (simp add: nth_opt_append)
  have run: "trace (finish ?s1 t err result) = trace s @ [ListenerCalled t err result]
      \<and> outcome (finish ?s1 t err result) t = Some (err, result)
      \<and> finish (finish ?s1 t err result) t err' result' = finish ?s1 t err result"
    if "finished tk = None" for err result err' result'
  proof -
    have a: "trace (finish ?s1 t err result) = trace s @ [ListenerCalled t err result]"
      using assms(2)
      by (simp add: finish_running [OF at that] run_listener_def nextTick_def record_event_def
          Let_def split: listener.splits)
    have b: "outcome (finish ?s1 t err result) t = Some (err, result)"
      by (rule outcome_finish_running [OF at that])
    then have "finish (finish ?s1 t err result) t err' result' = finish ?s1 t err result"
      by (simp add: finish_noop)
    with a b show ?thesis by simp
  qed
  have over: "finish ?s1 t err result = ?s1" if "finished tk \<noteq> None" for err result
  proof -
    from at that have "outcome ?s1 t \<noteq> None"
      by (simp add: outcome_def)
    then show ?thesis by (rule finish_noop)
  qed
  from then_do fin at run over show ?thesis
    by simp
qed

text \<open>A running task has the listener of a first \<open>thenDo\<close>. A second \<open>thenDo\<close> and a
  \<open>finally\<close> both throw; resolving the task afterwards calls the first listener once, which
  queues its deferred function. On the finished task of \<open>Task.withValue(5).thenDo(f)\<close> a
  second \<open>thenDo\<close> throws as well; the listener, called once by the first \<open>thenDo\<close>, is not
  called again, and a later \<open>reject("E")\<close> changes nothing.\<close>

theorem second_listener_fails_fast_witness:
  "snd (thenDo listened_task 0 None None) = Inl (VError ''thenDo/finally called more than once'')
   \<and> snd (finally_do listened_task 0 7) = Inl (VError ''thenDo/finally called more than once'')
   \<and> trace (fst (thenDo listened_task 0 None None)) = []
   \<and> trace (finish (fst (thenDo listened_task 0 None None)) 0 VNull (VNum 1))
       = [ListenerCalled 0 VNull (VNum 1)]
   \<and> queue (finish (fst (thenDo listened_task 0 None None)) 0 VNull (VNum 1))
       = [ComposeTick 0 VNull (VNum 1)]
   \<and> snd (thenDo chain_started 0 None None) = Inl (VError ''thenDo/finally called more than once'')
   \<and> trace (fst (thenDo chain_started 0 None None)) = [ListenerCalled 0 VNull (VNum 5)]
   \<and> finish (fst (thenDo chain_started 0 None None)) 0 (VStr ''E'') VNull
       = fst (thenDo chain_started 0 None None)"
proof -
  let ?tk = "\<lparr>finished = None, onFinish = Some (ComposeListener 0), abort = Some UserAbort\<rparr>"
  let ?over = "\<lparr>finished = Some (VNull, VNum 5), onFinish = Some (ComposeListener 0),
      abort = None\<rparr>"
  have at: "nth_opt (tasks listened_task) 0 = Some ?tk"
    by (simp add: listened_task_closed nth_opt_Cons)
  have lis: "onFinish ?tk = Some (ComposeListener 0)" and run: "finished ?tk = None"
    by simp_all
  note w = second_listener_fails_fast [OF at lis, where F = None and G = None and c = 7]
  have tr: "trace listened_task = []"
    by (simp add: listened_task_closed)
  have q: "queue (finish (fst (thenDo listened_task 0 None None)) 0 VNull (VNum 1))
       = [ComposeTick 0 VNull (VNum 1)]"
    by (simp add: thenDo_second [OF at lis] listened_task_closed pre_tick_defs)
  have at': "nth_opt (tasks chain_started) 0 = Some ?over"
    by (simp add: chain_started_closed nth_opt_Cons)
  have lis': "onFinish ?over = Some (ComposeListener 0)" and over: "finished ?over \<noteq> None"
    by simp_all
  note w' = second_listener_fails_fast [OF at' lis', where F = None and G = None]
  have tr': "trace chain_started = [ListenerCalled 0 VNull (VNum 5)]"
    by (simp add: chain_started_closed)
  from w run tr q w' over tr' show ?thesis
    by simp
qed

section \<open>Rejecting with null or undefined\<close>

text \<open>
  Claim C9. Let a task be rejected with null or undefined, by its starter during
  \<open>Task.start\<close> or by a later call of its \<open>reject\<close> callback, and let \<open>thenDo\<close> be called on
  it with factories \<open>f\<close> as \<open>onResolve\<close> and \<open>g\<close> as \<open>onReject\<close>, nothing else pending on the
  deferred queue. The stored outcome is \<open>(err, null)\<close>, and the next turn of the queue
  applies \<open>onResolve\<close> to the stored result null and does not apply \<open>onReject\<close>: what
  becomes of the composite task is what \<open>f null\<close> says, whatever \<open>g\<close> is. If \<open>f null\<close>
  throws, the composite is rejected with the thrown value; if it returns nothing, the
  composite is resolved with undefined; if it starts a task, that task becomes the current
  task of the chain, with the outcome its starter gave it, and the composite is still
  running; if it returns an existing task, that task becomes the current task. The only
  factory call added to the trace is that of \<open>onResolve\<close>, with argument null.
\<close>

theorem null_error_runs_onResolve:
  assumes "queue s = []" and "loosely_null err"
  shows "(let (s1, t) = Task_start s \<lparr>calls = [CallReject err], ending = en\<rparr>;
              (s2, r) = thenDo s1 t (Some (UserFactory f)) (Some (UserFactory g));
              (s3, x) = run_tick s2;
              c = Suc (length (tasks s));
              e = length (envs s)
          in outcome s1 t = Some (err, VNull) \<and> r = Inr c
             \<and> factory_calls s3 = factory_calls s @ [FactoryCalled e OnResolve VNull]
             \<and> (case f VNull of
                   FThrow thrown \<Rightarrow> x = Inr () \<and> outcome s3 c = Some (thrown, VNull)
                 | FNothing \<Rightarrow> x = Inr () \<and> outcome s3 c = Some (VNull, VUndefined)
                 | FTask (Start st) \<Rightarrow>
                     x = Inr () \<and> outcome s3 c = None \<and> current_of s3 e = Some (Suc c)
                     \<and> outcome s3 (Suc c) = sync_outcome st
                 | FTask (Existing u) \<Rightarrow> current_of s3 e = Some u))
       \<and> (\<forall>a tk. nth_opt (tasks s) a = Some tk \<and> onFinish tk = None \<and> finished tk = None \<longrightarrow>
            (let (s1, r) = thenDo s a (Some (UserFactory f)) (Some (UserFactory g));
                 s2 = reject s1 a err;
                 (s3, x) = run_tick s2;
                 c = length (tasks s);
                 e = length (envs s)
             in outcome s2 a = Some (err, VNull) \<and> r = Inr c
                \<and> factory_calls s3 = factory_calls s @ [FactoryCalled e OnResolve VNull]
                \<and> (case f VNull of
                      FThrow thrown \<Rightarrow> x = Inr () \<and> outcome s3 c = Some (thrown, VNull)
                    | FNothing \<Rightarrow> x = Inr () \<and> outcome s3 c = Some (VNull, VUndefined)
                    | FTask (Start st) \<Rightarrow>
                        x = Inr () \<and> outcome s3 c = None \<and> current_of s3 e = Some (Suc c)
                        \<and> outcome s3 (Suc c) = sync_outcome st
                    | FTask (Existing u) \<Rightarrow> current_of s3 e = Some u)))"
proof -
  let ?e = "length (envs s)"
  from assms(2) have ns: "err \<noteq> VStr ''cancelled''"
    by (auto simp: loosely_null_def)
  have branch: "(case f VNull of
        FThrow thrown \<Rightarrow> snd (compose_tick S ?e err VNull) = Inr ()
          \<and> outcome (fst (compose_tick S ?e err VNull)) c = Some (thrown, VNull)
      | FNothing \<Rightarrow> snd (compose_tick S ?e err VNull) = Inr ()
          \<and> outcome (fst (compose_tick S ?e err VNull)) c = Some (VNull, VUndefined)
      | FTask (Start st) \<Rightarrow> snd (compose_tick S ?e err VNull) = Inr ()
          \<and> outcome (fst (compose_tick S ?e err VNull)) c = None
          \<and> current_of (fst (compose_tick S ?e err VNull)) ?e = Some (Suc c)
          \<and> outcome (fst (compose_tick S ?e err VNull)) (Suc c) = sync_outcome st
      | FTask (Existing u) \<Rightarrow> current_of (fst (compose_tick S ?e err VNull)) ?e = Some u)"
    if "nth_opt (envs S) ?e = Some \<lparr>cancelled = False, currentTask = None, compositeTask = c,
        onResolve = Some (UserFactory f), onReject = Some (UserFactory g)\<rparr>" "nth_opt (tasks S) c = Some tkc" "finished tkc = None"
      "length (tasks S) = Suc c" for S c tkc
  proof -
    let ?env = "\<lparr>cancelled = False, currentTask = None, compositeTask = c,
        onResolve = Some (UserFactory f), onReject = Some (UserFactory g)\<rparr>"
    have env: "\<not> cancelled ?env" "onResolve ?env = Some (UserFactory f)" "compositeTask ?env = c"
      by simp_all
    from compose_tick_onResolve [OF that(1) env that(2,3) assms(2), of VNull]
    show ?thesis
      unfolding that(4) .
  qed
  let ?comp = "\<lparr>finished = None, onFinish = None, abort = Some (CancelCompositeTask ?e)\<rparr>"
  have one: "let (s1, t) = Task_start s \<lparr>calls = [CallReject err], ending = en\<rparr>;
              (s2, r) = thenDo s1 t (Some (UserFactory f)) (Some (UserFactory g));
              (s3, x) = run_tick s2;
              c = Suc (length (tasks s));
              e = length (envs s)
          in outcome s1 t = Some (err, VNull) \<and> r = Inr c
             \<and> factory_calls s3 = factory_calls s @ [FactoryCalled e OnResolve VNull]
             \<and> (case f VNull of
                   FThrow thrown \<Rightarrow> x = Inr () \<and> outcome s3 c = Some (thrown, VNull)
                 | FNothing \<Rightarrow> x = Inr () \<and> outcome s3 c = Some (VNull, VUndefined)
                 | FTask (Start st) \<Rightarrow>
                     x = Inr () \<and> outcome s3 c = None \<and> current_of s3 e = Some (Suc c)
                     \<and> outcome s3 (Suc c) = sync_outcome st
                 | FTask (Existing u) \<Rightarrow> current_of s3 e = Some u)"
  proof -
    define S where "S =
       \<lparr>tasks = tasks s @
          [\<lparr>finished = Some (err, VNull), onFinish = Some (ComposeListener ?e),
            abort = returned_abort \<lparr>calls = [CallReject err], ending = en\<rparr>\<rparr>, ?comp],
        envs = envs s @ [\<lparr>cancelled = False, currentTask = None,
            compositeTask = Suc (length (tasks s)),
            onResolve = Some (UserFactory f), onReject = Some (UserFactory g)\<rparr>],
        queue = [], trace = trace s @ [ListenerCalled (length (tasks s)) err VNull]\<rparr>"
    have S: "nth_opt (envs S) ?e = Some \<lparr>cancelled = False, currentTask = None,
            compositeTask = Suc (length (tasks s)),
            onResolve = Some (UserFactory f), onReject = Some (UserFactory g)\<rparr>"
      "nth_opt (tasks S) (Suc (length (tasks s))) = Some ?comp" "finished ?comp = None"
      "length (tasks S) = Suc (Suc (length (tasks s)))"
      by (simp_all add: S_def nth_opt_append nth_opt_Cons)
    have fc: "factory_calls (fst (compose_tick S ?e err VNull)) =
        factory_calls s @ [FactoryCalled ?e OnResolve VNull]"
      using assms(2) ns
      by (simp add: factory_calls_compose_tick S)
        (simp add: S_def factory_calls_def is_factory_call_def)
    have run: "run_tick (fst (thenDo (fst (Task_start s \<lparr>calls = [CallReject err], ending = en\<rparr>))
        (length (tasks s)) (Some (UserFactory f)) (Some (UserFactory g)))) =
        compose_tick S ?e err VNull"
      using assms(1)
      by (simp add: pre_tick_defs sync_outcome_def completion_pair_def S_def)
    have sn: "snd (Task_start s \<lparr>calls = [CallReject err], ending = en\<rparr>) = length (tasks s)"
      by (simp add: pre_tick_defs)
    have out: "outcome (fst (Task_start s \<lparr>calls = [CallReject err], ending = en\<rparr>))
        (length (tasks s)) = Some (err, VNull)"
      by (simp add: pre_tick_defs sync_outcome_def completion_pair_def)
    have r: "snd (thenDo (fst (Task_start s \<lparr>calls = [CallReject err], ending = en\<rparr>))
        (length (tasks s)) (Some (UserFactory f)) (Some (UserFactory g))) =
        Inr (Suc (length (tasks s)))"
      by (simp add: pre_tick_defs sync_outcome_def completion_pair_def)
    show ?thesis
      unfolding Let_def split_beta sn run
      using out r fc branch [OF S]
      by simp
  qed
  have two: "let (s1, r) = thenDo s a (Some (UserFactory f)) (Some (UserFactory g));
                 s2 = reject s1 a err;
                 (s3, x) = run_tick s2;
                 c = length (tasks s);
                 e = length (envs s)
             in outcome s2 a = Some (err, VNull) \<and> r = Inr c
                \<and> factory_calls s3 = factory_calls s @ [FactoryCalled e OnResolve VNull]
                \<and> (case f VNull of
                      FThrow thrown \<Rightarrow> x = Inr () \<and> outcome s3 c = Some (thrown, VNull)
                    | FNothing \<Rightarrow> x = Inr () \<and> outcome s3 c = Some (VNull, VUndefined)
                    | FTask (Start st) \<Rightarrow>
                        x = Inr () \<and> outcome s3 c = None \<and> current_of s3 e = Some (Suc c)
                        \<and> outcome s3 (Suc c) = sync_outcome st
                    | FTask (Existing u) \<Rightarrow> current_of s3 e = Some u)"
    if a: "nth_opt (tasks s) a = Some tk" "onFinish tk = None" "finished tk = None" for a tk
  proof -
    from a(1) have lt: "a < length (tasks s)"
      by (rule nth_opt_lt)
    define S where "S =
       \<lparr>tasks = (tasks s)[a := tk\<lparr>onFinish := Some (ComposeListener ?e),
              finished := Some (err, VNull)\<rparr>] @ [?comp],
        envs = envs s @ [\<lparr>cancelled = False, currentTask = None,
            compositeTask = length (tasks s),
            onResolve = Some (UserFactory f), onReject = Some (UserFactory g)\<rparr>],
        queue = [], trace = trace s @ [ListenerCalled a err VNull]\<rparr>"
    have S: "nth_opt (envs S) ?e = Some \<lparr>cancelled = False, currentTask = None,
            compositeTask = length (tasks s),
            onResolve = Some (UserFactory f), onReject = Some (UserFactory g)\<rparr>"
      "nth_opt (tasks S) (length (tasks s)) = Some ?comp" "finished ?comp = None"
      "length (tasks S) = Suc (length (tasks s))"
      by (simp_all add: S_def nth_opt_append nth_opt_Cons)
    have fc: "factory_calls (fst (compose_tick S ?e err VNull)) =
        factory_calls s @ [FactoryCalled ?e OnResolve VNull]"
      using assms(2) ns
      by (simp add: factory_calls_compose_tick S)
        (simp add: S_def factory_calls_def is_factory_call_def)
    have run: "run_tick (reject (fst (thenDo s a (Some (UserFactory f)) (Some (UserFactory g))))
        a err) = compose_tick S ?e err VNull"
      using assms(1) a lt
      by (simp add: pre_tick_defs S_def list_update_append1)
    have out: "outcome (reject (fst (thenDo s a (Some (UserFactory f)) (Some (UserFactory g))))
        a err) a = Some (err, VNull)"
      using a lt
      by (simp add: pre_tick_defs)
    have r: "snd (thenDo s a (Some (UserFactory f)) (Some (UserFactory g))) =
        Inr (length (tasks s))"
      using a lt
      by (simp add: pre_tick_defs)
    show ?thesis
      unfolding Let_def split_beta run
      using out r fc branch [OF S]
      by simp
  qed
  from one two show ?thesis
    by blast
qed

text \<open>
  Instances: \<open>onResolve\<close> throws a description of its argument and \<open>onReject\<close> throws
  \<open>boom\<close>. After \<open>reject(null)\<close> and after \<open>reject(undefined)\<close> inside the starter, and after
  \<open>reject(null)\<close> on a running task, the composite task is rejected with
  \<open>onResolve got null\<close>.
\<close>

theorem null_error_runs_onResolve_witness:
  "outcome (fst (Task_start empty_state \<lparr>calls = [CallReject VNull], ending = Return None\<rparr>)) 0
     = Some (VNull, VNull)
   \<and> outcome (fst (run_tick (fst (thenDo
        (fst (Task_start empty_state \<lparr>calls = [CallReject VNull], ending = Return None\<rparr>)) 0
        (Some (UserFactory reports_argument)) (Some (UserFactory throws_boom)))))) 1
     = Some (VStr ''onResolve got null'', VNull)
   \<and> factory_calls (fst (run_tick (fst (thenDo
        (fst (Task_start empty_state \<lparr>calls = [CallReject VNull], ending = Return None\<rparr>)) 0
        (Some (UserFactory reports_argument)) (Some (UserFactory throws_boom))))))
     = [FactoryCalled 0 OnResolve VNull]
   \<and> outcome (fst (Task_start empty_state \<lparr>calls = [CallReject VUndefined], ending = Return None\<rparr>)) 0
     = Some (VUndefined, VNull)
   \<and> outcome (fst (run_tick (fst (thenDo
        (fst (Task_start empty_state \<lparr>calls = [CallReject VUndefined], ending = Return None\<rparr>)) 0
        (Some (UserFactory reports_argument)) (Some (UserFactory throws_boom)))))) 1
     = Some (VStr ''onResolve got null'', VNull)
   \<and> outcome (fst (run_tick (reject (fst (thenDo pending_task 0
        (Some (UserFactory reports_argument)) (Some (UserFactory throws_boom)))) 0 VNull))) 1
     = Some (VStr ''onResolve got null'', VNull)
   \<and> factory_calls (fst (run_tick (reject (fst (thenDo pending_task 0
        (Some (UserFactory reports_argument)) (Some (UserFactory throws_boom)))) 0 VNull)))
     = [FactoryCalled 0 OnResolve VNull]"
proof -
  let ?tk = "\<lparr>finished = None, onFinish = None, abort = Some UserAbort\<rparr>"
  have e: "length (tasks empty_state) = 0" "length (envs empty_state) = 0"
    "factory_calls empty_state = []"
    by (simp_all add: empty_state_def)
  have q: "queue empty_state = []"
    by (simp add: empty_state_def)
  have sn: "snd (Task_start empty_state st) = 0" for st
    by (simp add: Task_start_closed empty_state_def)
  have n: "loosely_null VNull" and u: "loosely_null VUndefined"
    by (simp_all add: loosely_null_def)
  have p: "length (tasks pending_task) = 1" "length (envs pending_task) = 0"
    "factory_calls pending_task = []"
    by (simp_all add: pending_task_closed)
  have q': "queue pending_task = []"
    by (simp add: pending_task_closed)
  have at: "nth_opt (tasks pending_task) 0 = Some ?tk \<and> onFinish ?tk = None \<and> finished ?tk = None"
    by (simp add: pending_task_closed nth_opt_Cons)
  note inst = null_error_runs_onResolve [where en = "Return None"
      and f = reports_argument and g = throws_boom]
  from inst [OF q n, THEN conjunct1] inst [OF q u, THEN conjunct1]
    inst [OF q' n, THEN conjunct2, THEN spec, THEN spec, THEN mp, OF at]
  show ?thesis
    by (simp add: Let_def split_beta e sn p reports_argument_def)
qed

section \<open>A starter that completes its task and then throws\<close>

text \<open>
  Claim C10. When the starter calls \<open>resolve(v)\<close> or \<open>reject(e)\<close> and throws afterwards,
  \<open>Task.start\<close> returns the same state and task as for the starter that makes the same
  calls and returns nothing: the recorded outcome is that of the first call, and the
  thrown value is caught and lost.
\<close>

theorem throw_after_completion_discarded:
  "Task_start s \<lparr>calls = c # cs, ending = Throw err\<rparr>
     = Task_start s \<lparr>calls = c # cs, ending = Return None\<rparr>
   \<and> outcome (fst (Task_start s \<lparr>calls = c # cs, ending = Throw err\<rparr>)) (length (tasks s))
     = Some (completion_pair c)
   \<and> snd (Task_start s \<lparr>calls = c # cs, ending = Throw err\<rparr>) = length (tasks s)"
  by (simp add: Task_start_closed sync_outcome_def returned_abort_def outcome_def nth_opt_append
      nth_opt_Cons)

text \<open>\<open>resolve(7)\<close> and then \<open>throw "boom"\<close> gives \<open>(null, 7)\<close>; \<open>reject("E")\<close> and then
  \<open>throw "boom"\<close> gives \<open>("E", null)\<close>.\<close>

theorem throw_after_completion_discarded_witness:
  "outcome (fst (Task_start empty_state
      \<lparr>calls = [CallResolve (VNum 7)], ending = Throw (VStr ''boom'')\<rparr>)) 0 = Some (VNull, VNum 7)
   \<and> outcome (fst (Task_start empty_state
      \<lparr>calls = [CallReject (VStr ''E'')], ending = Throw (VStr ''boom'')\<rparr>)) 0 = Some (VStr ''E'', VNull)"
proof -
  have len: "length (tasks empty_state) = 0"
    by (simp add: empty_state_def)
  from throw_after_completion_discarded [of empty_state "CallResolve (VNum 7)" "[]" "VStr ''boom''"]
  have "outcome (fst (Task_start empty_state
      \<lparr>calls = [CallResolve (VNum 7)], ending = Throw (VStr ''boom'')\<rparr>)) 0 = Some (VNull, VNum 7)"
    unfolding len completion_pair_def call.case by (elim conjE)
  moreover
  from throw_after_completion_discarded [of empty_state "CallReject (VStr ''E'')" "[]" "VStr ''boom''"]
  have "outcome (fst (Task_start empty_state
      \<lparr>calls = [CallReject (VStr ''E'')], ending = Throw (VStr ''boom'')\<rparr>)) 0 = Some (VStr ''E'', VNull)"
    unfolding len completion_pair_def call.case by (elim conjE)
  ultimately show ?thesis
    by (rule conjI)
qed

end
